theory Spec2Isabelle
  imports Main
begin

section \<open>Python values and exceptions\<close>

text \<open>
  The three modules pass around dynamically typed values. Only the shapes the code
  inspects are distinguished: \<open>None\<close>, booleans, integers, strings and dictionaries
  with string keys (insertion ordered, as Python's \<open>dict\<close>).
\<close>

datatype pyval =
    PyNone
  | PyBool bool
  | PyInt int
  | PyStr string
  | PyDict "(string \<times> pyval) list"

text \<open>
  Exceptions raised inside the modelled code. Every constructor stands for a subclass of
  Python's \<open>Exception\<close>; asynchronous \<open>BaseException\<close>s (\<open>KeyboardInterrupt\<close>,
  \<open>SystemExit\<close>) are outside the model.
\<close>

datatype py_exception =
    Timeout string
  | AttributeError string
  | OSError string
  | ParseError string

text \<open>Truthiness of an optional list (\<open>None\<close> and \<open>[]\<close> are falsy) and its elements.\<close>

definition truthy :: "'a list option \<Rightarrow> bool" where
  "truthy v = (case v of None \<Rightarrow> False | Some xs \<Rightarrow> xs \<noteq> [])"

definition seq_of :: "'a list option \<Rightarrow> 'a list" where
  "seq_of v = (case v of None \<Rightarrow> [] | Some xs \<Rightarrow> xs)"


section \<open>multiple\_runs.py: the run matrix\<close>

subsection \<open>Configuration\<close>

text \<open>
  What \<open>yaml.safe_load\<close> can return, as far as the code looks: a mapping, or anything
  else (\<open>None\<close> for an empty file, a scalar, a list). A settings file either loads or
  makes \<open>open\<close>/\<open>safe_load\<close> raise.
\<close>

datatype yaml_doc = YMapping "(string \<times> yaml_doc) list" | YOther

datatype settings_file = Unloadable | Loaded yaml_doc

definition load_config :: "settings_file \<Rightarrow> yaml_doc" where
  "load_config f = (case f of Unloadable \<Rightarrow> YMapping [] | Loaded d \<Rightarrow> d)"

definition get_available_helper_types :: "settings_file \<Rightarrow> py_exception + string list" where
  "get_available_helper_types f =
     (case load_config f of
        YOther \<Rightarrow> Inl (AttributeError ''get'')
      | YMapping config \<Rightarrow>
          (case (case map_of config ''agent_configurations'' of
                   None \<Rightarrow> YMapping [] | Some v \<Rightarrow> v) of
             YOther \<Rightarrow> Inl (AttributeError ''keys'')
           | YMapping agent_configs \<Rightarrow> Inr (map fst agent_configs)))"

subsection \<open>One external invocation\<close>

text \<open>
  \<open>subprocess.run\<close> is the external boundary: an oracle that, given the command and the
  state of the outside world, either raises or returns a completed process. The model keeps
  the list of commands handed to it, so that "nothing was invoked" can be stated.
\<close>

record completed_process =
  returncode :: int
  stdout :: string
  stderr :: string

type_synonym 'w subprocess =
  "string list \<Rightarrow> 'w \<Rightarrow> (py_exception + completed_process) \<times> 'w"

record 'w os_state =
  outside :: 'w
  spawned :: "string list list"

definition subprocess_run ::
  "'w subprocess \<Rightarrow> string list \<Rightarrow> 'w os_state
     \<Rightarrow> (py_exception + completed_process) \<times> 'w os_state" where
  "subprocess_run proc cmd s =
     (case proc cmd (outside s) of
        (r, w') \<Rightarrow> (r, \<lparr>outside = w', spawned = spawned s @ [cmd]\<rparr>))"

text \<open>\<open>str\<close> of a Python integer: decimal digits with a leading minus sign.\<close>

fun digits :: "nat \<Rightarrow> string" where
  "digits n =
     (if n < 10 then [''0123456789'' ! n]
      else digits (n div 10) @ [''0123456789'' ! (n mod 10)])"

declare digits.simps [simp del]

definition str_int :: "int \<Rightarrow> string" where
  "str_int i = (if i < 0 then CHR ''-'' # digits (nat (- i)) else digits (nat i))"

definition sys_executable :: string where
  "sys_executable = ''python''"

definition run_single_debate ::
  "'w subprocess \<Rightarrow> string \<Rightarrow> int option \<Rightarrow> string \<Rightarrow> string \<Rightarrow> 'w os_state
     \<Rightarrow> bool \<times> 'w os_state" where
  "run_single_debate proc helper_type claim_index settings models s =
     (let cmd = [sys_executable, ''main.py'', ''--helper_type'', helper_type]
            @ (case claim_index of None \<Rightarrow> [] | Some c \<Rightarrow> [''--claim_index'', str_int c])
            @ (if settings \<noteq> ''./config/settings.yaml'' then [''--settings_path'', settings] else [])
            @ (if models \<noteq> ''./config/models.yaml'' then [''--models_path'', models] else [])
      in case subprocess_run proc cmd s of
           (Inr result, s') \<Rightarrow> (returncode result = 0, s')
         | (Inl e, s') \<Rightarrow> (False, s'))"

subsection \<open>main: planning and execution\<close>

record args =
  helper_types :: "string list option"
  claim_indexes :: "int list option"
  settings_path :: string
  models_path :: string
  list_helpers :: bool
  sequential :: bool

type_synonym run = "string \<times> int option"

text \<open>
  Line 129: \<open>args.claim_indexes[0] if args.claim_indexes and len(args.claim_indexes) == 1
  else None\<close>. The index is read only under the guard, so it is in range.
\<close>

definition single_claim_index :: "args \<Rightarrow> int option" where
  "single_claim_index a =
     (if truthy (claim_indexes a) \<and> length (seq_of (claim_indexes a)) = 1
      then Some (seq_of (claim_indexes a) ! 0) else None)"

text \<open>The inner loop of lines 124 to 126, on the accumulators \<open>runs\<close> and \<open>total_runs\<close>.\<close>

fun sequential_runs :: "string \<Rightarrow> int list \<Rightarrow> run list \<times> nat \<Rightarrow> run list \<times> nat" where
  "sequential_runs h [] (runs, total_runs) = (runs, total_runs)"
| "sequential_runs h (c # cs) (runs, total_runs) =
     sequential_runs h cs (runs @ [(h, Some c)], total_runs + 1)"

text \<open>The loop of lines 121 to 131.\<close>

fun prepare_loop :: "args \<Rightarrow> string list \<Rightarrow> run list \<times> nat \<Rightarrow> run list \<times> nat" where
  "prepare_loop a [] (runs, total_runs) = (runs, total_runs)"
| "prepare_loop a (h # hs) (runs, total_runs) =
     prepare_loop a hs
       (if sequential a \<and> truthy (claim_indexes a)
        then sequential_runs h (seq_of (claim_indexes a)) (runs, total_runs)
        else (runs @ [(h, single_claim_index a)], total_runs + 1))"

definition prepare_runs :: "args \<Rightarrow> string list \<Rightarrow> run list \<times> nat" where
  "prepare_runs a hts = prepare_loop a hts ([], 0)"

datatype plan_error =
    ConfigError py_exception
  | NoHelperTypes
  | InvalidHelperTypes "string list" "string list"

text \<open>
  Lines 98 to 131 of \<open>main\<close>: the helper types to run (the requested ones, or all
  available ones when none is requested), their validation against the configuration, and
  the preparation of the runs. The settings file is read once per call of
  \<open>get_available_helper_types\<close> and is taken to be the same at both reads.
\<close>

definition build_plan :: "(string \<Rightarrow> settings_file) \<Rightarrow> args \<Rightarrow> plan_error + (run list \<times> nat)" where
  "build_plan fs a =
     (case (if truthy (helper_types a) then Inr (seq_of (helper_types a))
            else get_available_helper_types (fs (settings_path a))) of
        Inl e \<Rightarrow> Inl (ConfigError e)
      | Inr hts \<Rightarrow>
          if hts = [] then Inl NoHelperTypes
          else
            (case get_available_helper_types (fs (settings_path a)) of
               Inl e \<Rightarrow> Inl (ConfigError e)
             | Inr available_helpers \<Rightarrow>
                 (let invalid_helpers = filter (\<lambda>h. h \<notin> set available_helpers) hts in
                  if invalid_helpers \<noteq> []
                  then Inl (InvalidHelperTypes invalid_helpers available_helpers)
                  else Inr (prepare_runs a hts))))"

text \<open>The loop of lines 145 to 158, on the two counters and the outside world.\<close>

fun execute_loop ::
  "'w subprocess \<Rightarrow> args \<Rightarrow> run list \<Rightarrow> nat \<times> nat \<times> 'w os_state \<Rightarrow> nat \<times> nat \<times> 'w os_state" where
  "execute_loop proc a [] (successful, failed, s) = (successful, failed, s)"
| "execute_loop proc a ((helper_type, claim_index) # rest) (successful, failed, s) =
     (case run_single_debate proc helper_type claim_index (settings_path a) (models_path a) s of
        (success, s') \<Rightarrow>
          execute_loop proc a rest
            (if success then (successful + 1, failed, s') else (successful, failed + 1, s')))"

definition execute_runs ::
  "'w subprocess \<Rightarrow> args \<Rightarrow> run list \<Rightarrow> 'w os_state \<Rightarrow> nat \<times> nat \<times> 'w os_state" where
  "execute_runs proc a runs s = execute_loop proc a runs (0, 0, s)"

record run_summary =
  summary_total :: nat
  summary_successful :: nat
  summary_failed :: nat

datatype main_outcome =
    ListedHelpers "string list"
  | ListingFailed py_exception
  | PlanFailed plan_error
  | Completed run_summary int

text \<open>
  \<open>main\<close>, from the parsed arguments on. The last component of \<open>Completed\<close> is the exit
  status: \<open>sys.exit(1)\<close> when a run failed, a normal return otherwise.
\<close>

definition main ::
  "(string \<Rightarrow> settings_file) \<Rightarrow> 'w subprocess \<Rightarrow> args \<Rightarrow> 'w os_state
     \<Rightarrow> main_outcome \<times> 'w os_state" where
  "main fs proc a s =
     (if list_helpers a then
        (case get_available_helper_types (fs (settings_path a)) of
           Inl e \<Rightarrow> (ListingFailed e, s)
         | Inr available_helpers \<Rightarrow> (ListedHelpers available_helpers, s))
      else
        (case build_plan fs a of
           Inl e \<Rightarrow> (PlanFailed e, s)
         | Inr (runs, total_runs) \<Rightarrow>
             (case execute_runs proc a runs s of
                (successful, failed, s') \<Rightarrow>
                  (Completed \<lparr>summary_total = total_runs, summary_successful = successful,
                              summary_failed = failed\<rparr>
                     (if failed > 0 then 1 else 0), s'))))"


section \<open>log\_main.py: formatting and filtering log records\<close>

text \<open>
  A \<open>logging.LogRecord\<close>, as far as the formatter and the filters look at it: the
  attributes that \<open>hasattr\<close> and \<open>getattr\<close> see (the standard ones and those passed as
  \<open>extra\<close>), the text \<open>record.getMessage()\<close> returns, and the ISO 8601 rendering in UTC
  of \<open>record.created\<close>.
\<close>

record LogRecord =
  attributes :: "string \<rightharpoonup> pyval"
  getMessage :: string
  created_utc :: string

text \<open>
  A Python \<open>dict\<close> keeps its keys in insertion order and never holds a key twice:
  \<open>d[k] = v\<close> replaces the value in place when \<open>k\<close> is there and appends otherwise.
\<close>

type_synonym pydict = "(string \<times> pyval) list"

definition dict_set :: "pydict \<Rightarrow> string \<Rightarrow> pyval \<Rightarrow> pydict" where
  "dict_set d k v =
     (if k \<in> set (map fst d) then map (\<lambda>(k', v'). if k' = k then (k', v) else (k', v')) d
      else d @ [(k, v)])"

fun dict_update :: "pydict \<Rightarrow> pydict \<Rightarrow> pydict" where
  "dict_update d [] = d"
| "dict_update d ((k, v) # rest) = dict_update (dict_set d k v) rest"

text \<open>
  The loop of lines 27 to 31 over \<open>fmt_keys.items()\<close>, on \<open>always_include\<close> and
  \<open>message\<close>. \<open>val in always_include\<close> followed by \<open>always_include.pop(val)\<close> is the
  lookup that succeeds; \<open>getattr(record, val)\<close> without a default raises when the record
  has no such attribute.
\<close>

fun declared_loop ::
  "LogRecord \<Rightarrow> (string \<times> string) list \<Rightarrow> pydict \<times> pydict \<Rightarrow> py_exception + pydict \<times> pydict" where
  "declared_loop r [] (always_include, message) = Inr (always_include, message)"
| "declared_loop r ((key, val) # rest) (always_include, message) =
     (case map_of always_include val of
        Some v \<Rightarrow>
          declared_loop r rest
            (filter (\<lambda>(k, _). k \<noteq> val) always_include, dict_set message key v)
      | None \<Rightarrow>
          (case attributes r val of
             None \<Rightarrow> Inl (AttributeError val)
           | Some v \<Rightarrow> declared_loop r rest (always_include, dict_set message key v)))"

definition extra_attrs :: "string list" where
  "extra_attrs = [''msg_type'', ''speaker'', ''receiver'', ''sender'', ''round'', ''topic'']"

text \<open>The loop of lines 34 to 36.\<close>

fun extras_loop :: "LogRecord \<Rightarrow> string list \<Rightarrow> pydict \<Rightarrow> pydict" where
  "extras_loop r [] message = message"
| "extras_loop r (attr # rest) message =
     extras_loop r rest
       (case attributes r attr of
          None \<Rightarrow> message
        | Some v \<Rightarrow> if attr \<notin> set (map fst message) then dict_set message attr v else message)"

text \<open>
  \<open>MyJSONFormatter._prepare_log_dict\<close> for a formatter built with \<open>fmt_keys\<close> (an
  ordered dictionary from output key to source name). \<open>format\<close> hands the result to
  \<open>json.dumps\<close>, which is not modelled.
\<close>

definition prepare_log_dict :: "(string \<times> string) list \<Rightarrow> LogRecord \<Rightarrow> py_exception + pydict" where
  "prepare_log_dict fmt_keys r =
     (case declared_loop r fmt_keys
             ([(''message'', PyStr (getMessage r)), (''timestamp'', PyStr (created_utc r))], []) of
        Inl e \<Rightarrow> Inl e
      | Inr (always_include, message) \<Rightarrow>
          Inr (dict_update (extras_loop r extra_attrs message) always_include))"

text \<open>
  The three stages of the envelope, written as the specification describes them, to
  compare with \<open>prepare_log_dict\<close>. The value a declared entry draws: the computed value
  when its source names one that no earlier entry has drawn, else the attribute of that
  name (\<open>None\<close> when the record has no such attribute).
\<close>

definition computed_values :: "LogRecord \<Rightarrow> pydict" where
  "computed_values r = [(''message'', PyStr (getMessage r)), (''timestamp'', PyStr (created_utc r))]"

definition drawn_value ::
  "LogRecord \<Rightarrow> pydict \<Rightarrow> (string \<times> string) list \<Rightarrow> nat \<Rightarrow> pyval option" where
  "drawn_value r computed fmt_keys i =
     (if snd (fmt_keys ! i) \<notin> set (map snd (take i fmt_keys))
      then (case map_of computed (snd (fmt_keys ! i)) of
              Some v \<Rightarrow> Some v
            | None \<Rightarrow> attributes r (snd (fmt_keys ! i)))
      else attributes r (snd (fmt_keys ! i)))"

definition source_value :: "LogRecord \<Rightarrow> (string \<times> string) list \<Rightarrow> nat \<Rightarrow> pyval option" where
  "source_value r fmt_keys i = drawn_value r (computed_values r) fmt_keys i"

definition fixed_fields :: "LogRecord \<Rightarrow> (string \<times> string) list \<Rightarrow> pydict" where
  "fixed_fields r fmt_keys =
     List.map_filter
       (\<lambda>a. if a \<in> set (map fst fmt_keys) then None else map_option (Pair a) (attributes r a))
       extra_attrs"

definition remaining_computed :: "LogRecord \<Rightarrow> (string \<times> string) list \<Rightarrow> pydict" where
  "remaining_computed r fmt_keys =
     filter (\<lambda>(n, _). n \<notin> set (map snd fmt_keys)) (computed_values r)"


text \<open>\<open>getattr(record, name, default)\<close>, which never raises.\<close>

definition getattr_default :: "LogRecord \<Rightarrow> string \<Rightarrow> pyval \<Rightarrow> pyval" where
  "getattr_default r name dflt = (case attributes r name of None \<Rightarrow> dflt | Some v \<Rightarrow> v)"

definition MainDebateFilter :: "LogRecord \<Rightarrow> bool" where
  "MainDebateFilter r = (getattr_default r ''msg_type'' PyNone = PyStr ''main debate'')"

definition PersuadorHelperFilter :: "LogRecord \<Rightarrow> bool" where
  "PersuadorHelperFilter r = (getattr_default r ''msg_type'' PyNone = PyStr ''persuador_helper'')"

text \<open>
  The filters are attached to handlers by the logging configuration, and the dispatch is
  the standard library's: a handler emits a record when every filter attached to it accepts
  the record, and a logger offers each record to each of its handlers. The handlers (a name
  and the filters attached) are a parameter; level thresholds are left out.
\<close>

type_synonym handler = "string \<times> (LogRecord \<Rightarrow> bool) list"

definition handler_accepts :: "handler \<Rightarrow> LogRecord \<Rightarrow> bool" where
  "handler_accepts h r = list_all (\<lambda>f. f r) (snd h)"

definition callHandlers :: "handler list \<Rightarrow> LogRecord \<Rightarrow> string list" where
  "callHandlers hs r = map fst (filter (\<lambda>h. handler_accepts h r) hs)"


section \<open>utils.py: the debates summary\<close>

text \<open>
  The summary file is missing, or exists and makes \<open>pd.read_excel\<close> raise, or holds a
  sheet of rows; a row maps column names to cells, in column order.
\<close>

type_synonym row = "(string \<times> pyval) list"

datatype xlsx_file = Missing | Unreadable py_exception | Sheet "row list"

text \<open>
  The lock file, as \<open>filelock.FileLock\<close> finds it: released by its holders after some
  time (zero when nobody holds it), held for ever, or unusable (creating or locking it
  raises an error other than a timeout).
\<close>

datatype lock_file_state = ReleasedAfter nat | HeldForever | Unusable py_exception

datatype levelname = ERROR | INFO

type_synonym log_entry = "levelname \<times> string \<times> string"

text \<open>
  The world \<open>save_debate_in_excel\<close> acts on: the lock file, the summary file, what
  \<open>df.to_excel\<close> will do (succeed, or raise and leave the file in some state), the
  records handed to the logger (level, message, \<open>msg_type\<close>), and the time spent waiting
  for the lock.
\<close>

record world =
  lock_state :: lock_file_state
  excel_file :: xlsx_file
  write_error :: "(py_exception \<times> xlsx_file) option"
  logged :: "log_entry list"
  waited :: nat

definition excel_file_name :: string where
  "excel_file_name = ''all_debates_summary.xlsx''"

definition lock_file_name :: string where
  "lock_file_name = ''all_debates_summary.xlsx.lock''"

text \<open>\<open>str(e)\<close> for the exceptions of the model.\<close>

fun exception_text :: "py_exception \<Rightarrow> string" where
  "exception_text (Timeout f) =
     ''The file lock '' @ [CHR 0x27] @ f @ [CHR 0x27] @ '' could not be acquired.''"
| "exception_text (AttributeError m) = m"
| "exception_text (OSError m) = m"
| "exception_text (ParseError m) = m"

definition logger_error :: "string \<Rightarrow> world \<Rightarrow> world" where
  "logger_error m w = w\<lparr>logged := logged w @ [(ERROR, m, ''system'')]\<rparr>"

definition logger_info :: "string \<Rightarrow> world \<Rightarrow> world" where
  "logger_info m w = w\<lparr>logged := logged w @ [(INFO, m, ''system'')]\<rparr>"

text \<open>
  Entering \<open>with lock\<close> for a \<open>FileLock(lock_file, timeout)\<close>: the lock is taken if it
  is released within \<open>timeout\<close> time units, otherwise \<open>filelock.Timeout\<close> is raised once
  \<open>timeout\<close> units have passed.
\<close>

definition acquire :: "string \<Rightarrow> nat \<Rightarrow> world \<Rightarrow> (py_exception + unit) \<times> world" where
  "acquire lock_file timeout w =
     (case lock_state w of
        ReleasedAfter t \<Rightarrow>
          if t \<le> timeout then (Inr (), w\<lparr>waited := waited w + t\<rparr>)
          else (Inl (Timeout lock_file), w\<lparr>waited := waited w + timeout\<rparr>)
      | HeldForever \<Rightarrow> (Inl (Timeout lock_file), w\<lparr>waited := waited w + timeout\<rparr>)
      | Unusable e \<Rightarrow> (Inl e, w))"

text \<open>\<open>claim_data.get('claim', 'Unknown claim')\<close> on a dictionary.\<close>

definition dict_get :: "pydict \<Rightarrow> string \<Rightarrow> pyval \<Rightarrow> pyval" where
  "dict_get d k dflt = (case map_of d k of None \<Rightarrow> dflt | Some v \<Rightarrow> v)"

definition new_row :: "pyval \<Rightarrow> pydict \<Rightarrow> pyval \<Rightarrow> pyval \<Rightarrow> pyval \<Rightarrow> pyval \<Rightarrow> row" where
  "new_row topic_id claim_data helper_type chat_id result rounds =
     [(''topic_id'', topic_id),
      (''claim'', dict_get claim_data ''claim'' (PyStr ''Unknown claim'')),
      (''helper_type'', helper_type),
      (''result'', result),
      (''rounds'', rounds),
      (''chat_id'', chat_id)]"

text \<open>
  Lines 87 to 99: the data frame to save, with the inner \<open>try\<close> around \<open>pd.read_excel\<close>.
\<close>

definition load_frame :: "row \<Rightarrow> world \<Rightarrow> row list \<times> world" where
  "load_frame nr w =
     (case excel_file w of
        Missing \<Rightarrow> ([nr], w)
      | Sheet rows \<Rightarrow> (rows @ [nr], w)
      | Unreadable e \<Rightarrow>
          ([nr], logger_error (''Error reading existing Excel file: '' @ exception_text e) w))"

text \<open>Lines 73 to 106: the body of \<open>with lock\<close>, which raises or returns \<open>True\<close>.\<close>

definition locked_section ::
  "pyval \<Rightarrow> pydict \<Rightarrow> pyval \<Rightarrow> pyval \<Rightarrow> pyval \<Rightarrow> pyval \<Rightarrow> world \<Rightarrow> (py_exception + bool) \<times> world" where
  "locked_section topic_id claim_data helper_type chat_id result rounds w =
     (case load_frame (new_row topic_id claim_data helper_type chat_id result rounds) w of
        (df, w1) \<Rightarrow>
          (case write_error w1 of
             Some (e, left) \<Rightarrow> (Inl e, w1\<lparr>excel_file := left\<rparr>)
           | None \<Rightarrow>
               (Inr True,
                logger_info (''Successfully updated debate summary in '' @ excel_file_name)
                  (w1\<lparr>excel_file := Sheet df\<rparr>))))"

text \<open>
  \<open>save_debate_in_excel\<close>. The result is a sum so that an exception leaving the function
  would show as \<open>Inl\<close>; the outer \<open>except Exception\<close> turns every exception of the
  \<open>try\<close> block into a logged error and the value \<open>False\<close>.
\<close>

definition save_debate_in_excel ::
  "pyval \<Rightarrow> pydict \<Rightarrow> pyval \<Rightarrow> pyval \<Rightarrow> pyval \<Rightarrow> pyval \<Rightarrow> world \<Rightarrow> (py_exception + bool) \<times> world" where
  "save_debate_in_excel topic_id claim_data helper_type chat_id result rounds w =
     (case (case acquire lock_file_name 30 w of
              (Inl e, w') \<Rightarrow> (Inl e, w')
            | (Inr u, w') \<Rightarrow> locked_section topic_id claim_data helper_type chat_id result rounds w') of
        (Inr b, w') \<Rightarrow> (Inr b, w')
      | (Inl e, w') \<Rightarrow>
          (Inr False, logger_error (''Error saving debate to Excel: '' @ exception_text e) w'))"


section \<open>Properties of the run matrix\<close>

lemma sequential_runs_eq:
  "sequential_runs h cs (runs, n) = (runs @ map (\<lambda>c. (h, Some c)) cs, n + length cs)"
  by (induction cs arbitrary: runs n) simp_all

lemma prepare_loop_counts:
  "prepare_loop a hs (runs, n) = (runs', n') \<Longrightarrow> n = length runs \<Longrightarrow> n' = length runs'"
proof (induction hs arbitrary: runs n)
  case Nil
  then show ?case by auto
next
  case (Cons h hs)
  show ?case
  proof (cases "sequential a \<and> truthy (claim_indexes a)")
    case True
    with Cons.prems have "prepare_loop a hs (runs @ map (\<lambda>c. (h, Some c)) (seq_of (claim_indexes a)),
        n + length (seq_of (claim_indexes a))) = (runs', n')"
      by (simp add: sequential_runs_eq)
    from Cons.IH [OF this] Cons.prems(2) show ?thesis by simp
  next
    case False
    with Cons.prems have "prepare_loop a hs (runs @ [(h, single_claim_index a)], n + 1) = (runs', n')"
      by auto
    from Cons.IH [OF this] Cons.prems(2) show ?thesis by simp
  qed
qed

lemma prepare_loop_non_sequential:
  "\<not> sequential a \<Longrightarrow>
   prepare_loop a hs (runs, n) = (runs @ map (\<lambda>h. (h, single_claim_index a)) hs, n + length hs)"
  by (induction hs arbitrary: runs n) simp_all

lemma execute_loop_tally:
  "execute_loop proc a runs (successful, failed, s) = (successful', failed', s') \<Longrightarrow>
   successful' + failed' = successful + failed + length runs"
proof (induction runs arbitrary: successful failed s)
  case Nil
  then show ?case by simp
next
  case (Cons r rest)
  obtain h c where r: "r = (h, c)" by (cases r)
  obtain ok s1 where step: "run_single_debate proc h c (settings_path a) (models_path a) s = (ok, s1)"
    by (cases "run_single_debate proc h c (settings_path a) (models_path a) s")
  show ?case
  proof (cases ok)
    case True
    with Cons.prems r step have "execute_loop proc a rest (successful + 1, failed, s1) = (successful', failed', s')"
      by simp
    from Cons.IH [OF this] show ?thesis by simp
  next
    case False
    with Cons.prems r step have "execute_loop proc a rest (successful, failed + 1, s1) = (successful', failed', s')"
      by simp
    from Cons.IH [OF this] show ?thesis by simp
  qed
qed

lemma run_single_debate_spawns_one:
  "run_single_debate proc h c sp mp s = (ok, s') \<Longrightarrow> length (spawned s') = length (spawned s) + 1"
  by (auto simp: run_single_debate_def subprocess_run_def Let_def split: prod.splits sum.splits)

lemma execute_loop_spawned:
  "execute_loop proc a runs (successful, failed, s) = (successful', failed', s') \<Longrightarrow>
   length (spawned s') = length (spawned s) + length runs"
proof (induction runs arbitrary: successful failed s)
  case Nil
  then show ?case by simp
next
  case (Cons r rest)
  obtain h c where r: "r = (h, c)" by (cases r)
  obtain ok s1 where step: "run_single_debate proc h c (settings_path a) (models_path a) s = (ok, s1)"
    by (cases "run_single_debate proc h c (settings_path a) (models_path a) s")
  from Cons.prems r step obtain x y where
    "execute_loop proc a rest (x, y, s1) = (successful', failed', s')"
    by (cases ok) simp_all
  from Cons.IH [OF this] run_single_debate_spawns_one [OF step] show ?case by simp
qed

lemma single_claim_index_cases:
  "single_claim_index a = (case claim_indexes a of Some [i] \<Rightarrow> Some i | _ \<Rightarrow> None)"
  by (simp add: single_claim_index_def truthy_def seq_of_def split: option.splits list.splits)

text \<open>
  C1. Executing any list of runs, against any behaviour of the spawned processes (exit
  status zero, non-zero, or an exception of \<open>subprocess.run\<close>), counts every run once:
  the successes and the failures add up to the number of runs, and one process was spawned
  per run. Whenever \<open>main\<close> reaches its summary, the total it reports is the counter of
  the planning loop, which is the length of the plan, and equals successes plus failures.
\<close>

theorem execute_plan_tally:
  "(case execute_runs proc a runs s of
      (successful, failed, s') \<Rightarrow>
        successful + failed = length runs \<and> length (spawned s') = length (spawned s) + length runs)
   \<and> (\<forall>sm code s'. main fs proc a s = (Completed sm code, s') \<longrightarrow>
         summary_successful sm + summary_failed sm = summary_total sm
         \<and> (\<exists>runs. build_plan fs a = Inr (runs, summary_total sm) \<and> summary_total sm = length runs))"
proof (intro conjI allI impI)
  show "case execute_runs proc a runs s of
      (successful, failed, s') \<Rightarrow>
        successful + failed = length runs \<and> length (spawned s') = length (spawned s) + length runs"
    using execute_loop_tally [of proc a runs 0 0 s] execute_loop_spawned [of proc a runs 0 0 s]
    by (auto simp: execute_runs_def split: prod.splits)
next
  fix sm code s'
  assume m: "main fs proc a s = (Completed sm code, s')"
  then obtain runs n where plan: "build_plan fs a = Inr (runs, n)"
    by (auto simp: main_def split: if_splits sum.splits prod.splits)
  obtain su fa s1 where ex: "execute_runs proc a runs s = (su, fa, s1)"
    by (cases "execute_runs proc a runs s")
  from m plan ex have sm: "sm = \<lparr>summary_total = n, summary_successful = su, summary_failed = fa\<rparr>"
    by (auto simp: main_def split: if_splits sum.splits)
  from ex have tally: "su + fa = length runs"
    using execute_loop_tally [of proc a runs 0 0 s su fa s1] by (simp add: execute_runs_def)
  from plan obtain hts where "prepare_runs a hts = (runs, n)"
    by (auto simp: build_plan_def Let_def split: if_splits sum.splits)
  then have n: "n = length runs"
    using prepare_loop_counts [of a hts "[]" 0 runs n] by (simp add: prepare_runs_def)
  show "summary_successful sm + summary_failed sm = summary_total sm"
    using sm tally n by simp
  show "\<exists>runs. build_plan fs a = Inr (runs, summary_total sm) \<and> summary_total sm = length runs"
    using sm plan n by auto
qed

theorem execute_plan_tally_witness:
  "main (\<lambda>p. Loaded (YMapping [(''agent_configurations'',
            YMapping [(''vanilla'', YOther), (''fallacy'', YOther)])]))
        (\<lambda>cmd w. (if cmd ! 3 = ''vanilla'' then Inr \<lparr>returncode = 0, stdout = [], stderr = []\<rparr>
                   else if cmd ! 5 = ''1'' then Inl (OSError ''spawn'')
                   else Inr \<lparr>returncode = 2, stdout = [], stderr = ''boom''\<rparr>, w))
        \<lparr>helper_types = Some [''vanilla'', ''fallacy''], claim_indexes = Some [1, 2],
         settings_path = ''./config/settings.yaml'', models_path = ''./config/models.yaml'',
         list_helpers = False, sequential = True\<rparr>
        \<lparr>outside = (), spawned = []\<rparr>
   = (Completed \<lparr>summary_total = 4, summary_successful = 2, summary_failed = 2\<rparr> 1,
      \<lparr>outside = (), spawned =
        [[''python'', ''main.py'', ''--helper_type'', ''vanilla'', ''--claim_index'', ''1''],
         [''python'', ''main.py'', ''--helper_type'', ''vanilla'', ''--claim_index'', ''2''],
         [''python'', ''main.py'', ''--helper_type'', ''fallacy'', ''--claim_index'', ''1''],
         [''python'', ''main.py'', ''--helper_type'', ''fallacy'', ''--claim_index'', ''2'']]\<rparr>)
   \<and> (2::nat) + 2 = 4
   \<and> build_plan (\<lambda>p. Loaded (YMapping [(''agent_configurations'',
            YMapping [(''vanilla'', YOther), (''fallacy'', YOther)])]))
        \<lparr>helper_types = Some [''vanilla'', ''fallacy''], claim_indexes = Some [1, 2],
         settings_path = ''./config/settings.yaml'', models_path = ''./config/models.yaml'',
         list_helpers = False, sequential = True\<rparr>
       = Inr ([(''vanilla'', Some 1), (''vanilla'', Some 2), (''fallacy'', Some 1), (''fallacy'', Some 2)], 4)"
proof -
  let ?fs = "(\<lambda>p. Loaded (YMapping [(''agent_configurations'',
            YMapping [(''vanilla'', YOther), (''fallacy'', YOther)])]))"
  let ?p = "(\<lambda>cmd w. (if cmd ! 3 = ''vanilla'' then Inr \<lparr>returncode = 0, stdout = [], stderr = []\<rparr>
                   else if cmd ! 5 = ''1'' then Inl (OSError ''spawn'')
                   else Inr \<lparr>returncode = 2, stdout = [], stderr = ''boom''\<rparr>, w))"
  let ?a = "\<lparr>helper_types = Some [''vanilla'', ''fallacy''], claim_indexes = Some [1, 2],
         settings_path = ''./config/settings.yaml'', models_path = ''./config/models.yaml'',
         list_helpers = False, sequential = True\<rparr>"
  let ?s = "\<lparr>outside = (), spawned = []\<rparr>"
  have plan: "build_plan ?fs ?a
       = Inr ([(''vanilla'', Some 1), (''vanilla'', Some 2), (''fallacy'', Some 1), (''fallacy'', Some 2)], 4)"
    by (simp add: build_plan_def get_available_helper_types_def load_config_def
        truthy_def seq_of_def prepare_runs_def)
  have ev: "main ?fs ?p ?a ?s
   = (Completed \<lparr>summary_total = 4, summary_successful = 2, summary_failed = 2\<rparr> 1,
      \<lparr>outside = (), spawned =
        [[''python'', ''main.py'', ''--helper_type'', ''vanilla'', ''--claim_index'', ''1''],
         [''python'', ''main.py'', ''--helper_type'', ''vanilla'', ''--claim_index'', ''2''],
         [''python'', ''main.py'', ''--helper_type'', ''fallacy'', ''--claim_index'', ''1''],
         [''python'', ''main.py'', ''--helper_type'', ''fallacy'', ''--claim_index'', ''2'']]\<rparr>)"
    by (simp add: main_def plan execute_runs_def run_single_debate_def
        subprocess_run_def sys_executable_def str_int_def digits.simps)
  from execute_plan_tally [where proc = ?p and a = ?a and runs = "[]" and s = ?s and fs = ?fs]
  have "summary_successful \<lparr>summary_total = 4, summary_successful = 2, summary_failed = 2\<rparr>
        + summary_failed \<lparr>summary_total = 4, summary_successful = 2, summary_failed = 2\<rparr>
        = summary_total \<lparr>summary_total = 4, summary_successful = 2, summary_failed = 2\<rparr>"
    using ev by blast
  then show ?thesis using ev plan by simp
qed

text \<open>
  C2, as amended. Without \<open>--sequential\<close>, for helper types that are all known to the
  configuration and any \<open>--claim_indexes\<close> (absent, or a list of any length): when at
  least one helper type is to be run (the requested ones, or every known one when none is
  requested), planning succeeds and gives one run per helper type, in order. Every run
  carries the same claim index, which is present exactly when the request names one single
  claim index; the planning loop does so on any list of helper types. When nothing is
  requested and nothing is configured, \<open>main\<close> stops at its guard and there is no plan.
\<close>

theorem build_plan_non_sequential:
  assumes "get_available_helper_types (fs (settings_path a)) = Inr known"
    and "\<not> sequential a"
  shows "(\<forall>hs. helper_types a = Some hs \<and> hs \<noteq> [] \<and> set hs \<subseteq> set known \<longrightarrow>
            build_plan fs a = Inr (map (\<lambda>h. (h, single_claim_index a)) hs, length hs))
       \<and> (\<not> truthy (helper_types a) \<and> known \<noteq> [] \<longrightarrow>
            build_plan fs a = Inr (map (\<lambda>h. (h, single_claim_index a)) known, length known))
       \<and> prepare_runs a hts = (map (\<lambda>h. (h, single_claim_index a)) hts, length hts)
       \<and> single_claim_index a = (case claim_indexes a of Some [i] \<Rightarrow> Some i | _ \<Rightarrow> None)
       \<and> (\<not> truthy (helper_types a) \<and> known = [] \<longrightarrow> build_plan fs a = Inl NoHelperTypes)"
proof (intro conjI allI impI)
  show prep: "prepare_runs a hts = (map (\<lambda>h. (h, single_claim_index a)) hts, length hts)" for hts
    using assms(2) by (simp add: prepare_runs_def prepare_loop_non_sequential)
  show "single_claim_index a = (case claim_indexes a of Some [i] \<Rightarrow> Some i | _ \<Rightarrow> None)"
    by (rule single_claim_index_cases)
  {
    fix hs
    assume h: "helper_types a = Some hs \<and> hs \<noteq> [] \<and> set hs \<subseteq> set known"
    then have "filter (\<lambda>h. h \<notin> set known) hs = []"
      by (auto simp: filter_empty_conv)
    with h assms(1) show "build_plan fs a = Inr (map (\<lambda>h. (h, single_claim_index a)) hs, length hs)"
      by (simp add: build_plan_def truthy_def seq_of_def prep)
  }
  {
    assume h: "\<not> truthy (helper_types a) \<and> known \<noteq> []"
    have "filter (\<lambda>h. h \<notin> set known) known = []"
      by (auto simp: filter_empty_conv)
    with h assms(1) show "build_plan fs a = Inr (map (\<lambda>h. (h, single_claim_index a)) known, length known)"
      by (simp add: build_plan_def prep)
  }
  {
    assume "\<not> truthy (helper_types a) \<and> known = []"
    with assms(1) show "build_plan fs a = Inl NoHelperTypes"
      by (simp add: build_plan_def)
  }
qed

theorem build_plan_non_sequential_witness:
  "build_plan (\<lambda>p. Loaded (YMapping [(''agent_configurations'',
            YMapping [(''no_helper'', YOther), (''vanilla'', YOther), (''fallacy'', YOther)])]))
        \<lparr>helper_types = Some [''fallacy'', ''vanilla''], claim_indexes = Some [7],
         settings_path = ''s.yaml'', models_path = ''m.yaml'',
         list_helpers = False, sequential = False\<rparr>
     = Inr ([(''fallacy'', Some 7), (''vanilla'', Some 7)], 2)
   \<and> build_plan (\<lambda>p. Loaded (YMapping [(''agent_configurations'',
            YMapping [(''no_helper'', YOther), (''vanilla'', YOther), (''fallacy'', YOther)])]))
        \<lparr>helper_types = Some [''fallacy'', ''vanilla''], claim_indexes = Some [7, 8],
         settings_path = ''s.yaml'', models_path = ''m.yaml'',
         list_helpers = False, sequential = False\<rparr>
     = Inr ([(''fallacy'', None), (''vanilla'', None)], 2)"
proof -
  let ?fs = "(\<lambda>p. Loaded (YMapping [(''agent_configurations'',
            YMapping [(''no_helper'', YOther), (''vanilla'', YOther), (''fallacy'', YOther)])]))"
  let ?a = "\<lparr>helper_types = Some [''fallacy'', ''vanilla''], claim_indexes = Some [7],
         settings_path = ''s.yaml'', models_path = ''m.yaml'',
         list_helpers = False, sequential = False\<rparr>"
  let ?b = "\<lparr>helper_types = Some [''fallacy'', ''vanilla''], claim_indexes = Some [7, 8],
         settings_path = ''s.yaml'', models_path = ''m.yaml'',
         list_helpers = False, sequential = False\<rparr>"
  let ?known = "[''no_helper'', ''vanilla'', ''fallacy'']"
  have cfg: "get_available_helper_types (?fs x) = Inr ?known" for x :: string
    by (simp add: get_available_helper_types_def load_config_def)
  have "build_plan ?fs ?a = Inr (map (\<lambda>h. (h, single_claim_index ?a)) [''fallacy'', ''vanilla''], 2)"
    using build_plan_non_sequential [where fs = ?fs and a = ?a and known = ?known, OF cfg]
    by simp
  moreover
  have "build_plan ?fs ?b = Inr (map (\<lambda>h. (h, single_claim_index ?b)) [''fallacy'', ''vanilla''], 2)"
    using build_plan_non_sequential [where fs = ?fs and a = ?b and known = ?known, OF cfg]
    by simp
  ultimately show ?thesis
    by (simp add: single_claim_index_def truthy_def seq_of_def)
qed

text \<open>
  C2 as stated takes in the request of no helper type against a configuration that declares
  none (or a settings file that does not load): the empty set is a subset of the known
  helper types, yet planning stops at the guard of lines 105 to 107 and gives no plan.
\<close>

theorem build_plan_nothing_to_run:
  "build_plan (\<lambda>p. Loaded (YMapping [(''agent_configurations'', YMapping [])]))
        \<lparr>helper_types = None, claim_indexes = None,
         settings_path = ''./config/settings.yaml'', models_path = ''./config/models.yaml'',
         list_helpers = False, sequential = False\<rparr>
     = Inl NoHelperTypes
   \<and> build_plan (\<lambda>p. Unloadable)
        \<lparr>helper_types = None, claim_indexes = Some [1],
         settings_path = ''./config/settings.yaml'', models_path = ''./config/models.yaml'',
         list_helpers = False, sequential = False\<rparr>
     = Inl NoHelperTypes"
  by (simp add: build_plan_def get_available_helper_types_def load_config_def truthy_def)

text \<open>
  C3. A request that names a helper type unknown to the configuration makes planning fail
  with the list of the unknown names (and the known ones); there is no plan, \<open>main\<close>
  leaves the outside world as it was (no process is spawned), and unless it was only asked
  to list the helpers it ends with that error.
\<close>

theorem unknown_variant_aborts:
  assumes "get_available_helper_types (fs (settings_path a)) = Inr known"
    and "helper_types a = Some hs"
    and "h \<in> set hs" and "h \<notin> set known"
  shows "build_plan fs a = Inl (InvalidHelperTypes (filter (\<lambda>x. x \<notin> set known) hs) known)
       \<and> h \<in> set (filter (\<lambda>x. x \<notin> set known) hs)
       \<and> set (filter (\<lambda>x. x \<notin> set known) hs) = set hs - set known
       \<and> snd (main fs proc a s) = s
       \<and> (\<not> list_helpers a \<longrightarrow>
            fst (main fs proc a s) = PlanFailed (InvalidHelperTypes (filter (\<lambda>x. x \<notin> set known) hs) known))"
proof -
  from assms(3) have ne: "hs \<noteq> []" by auto
  from assms(3,4) have inv: "filter (\<lambda>x. x \<notin> set known) hs \<noteq> []"
    by (auto simp: filter_empty_conv)
  from assms(1,2) ne inv
  have plan: "build_plan fs a = Inl (InvalidHelperTypes (filter (\<lambda>x. x \<notin> set known) hs) known)"
    by (simp add: build_plan_def truthy_def seq_of_def)
  from plan assms(1) have m: "snd (main fs proc a s) = s"
    by (simp add: main_def)
  from plan have m2: "\<not> list_helpers a \<longrightarrow>
      fst (main fs proc a s) = PlanFailed (InvalidHelperTypes (filter (\<lambda>x. x \<notin> set known) hs) known)"
    by (simp add: main_def)
  from assms(3,4) have "h \<in> set (filter (\<lambda>x. x \<notin> set known) hs)" by simp
  moreover have "set (filter (\<lambda>x. x \<notin> set known) hs) = set hs - set known" by auto
  ultimately show ?thesis using plan m m2 by blast
qed

theorem unknown_variant_aborts_witness:
  "main (\<lambda>p. Loaded (YMapping [(''agent_configurations'',
            YMapping [(''vanilla'', YOther), (''fallacy'', YOther)])]))
        (\<lambda>cmd w. (Inr \<lparr>returncode = 0, stdout = [], stderr = []\<rparr>, w))
        \<lparr>helper_types = Some [''vanilla'', ''socratic'', ''fallacy'', ''oracle''],
         claim_indexes = None,
         settings_path = ''s.yaml'', models_path = ''m.yaml'',
         list_helpers = False, sequential = True\<rparr>
        \<lparr>outside = (), spawned = []\<rparr>
   = (PlanFailed (InvalidHelperTypes [''socratic'', ''oracle''] [''vanilla'', ''fallacy'']),
      \<lparr>outside = (), spawned = []\<rparr>)"
proof -
  let ?fs = "(\<lambda>p. Loaded (YMapping [(''agent_configurations'',
            YMapping [(''vanilla'', YOther), (''fallacy'', YOther)])]))"
  let ?a = "\<lparr>helper_types = Some [''vanilla'', ''socratic'', ''fallacy'', ''oracle''],
         claim_indexes = None,
         settings_path = ''s.yaml'', models_path = ''m.yaml'',
         list_helpers = False, sequential = True\<rparr>"
  let ?known = "[''vanilla'', ''fallacy'']"
  let ?p = "(\<lambda>cmd w. (Inr \<lparr>returncode = 0, stdout = [], stderr = []\<rparr>, w))
             :: string list \<Rightarrow> unit \<Rightarrow> (py_exception + completed_process) \<times> unit"
  have cfg: "get_available_helper_types (?fs (settings_path ?a)) = Inr ?known"
    by (simp add: get_available_helper_types_def load_config_def)
  have req: "helper_types ?a = Some [''vanilla'', ''socratic'', ''fallacy'', ''oracle'']"
    by simp
  have mem: "''socratic'' \<in> set [''vanilla'', ''socratic'', ''fallacy'', ''oracle'']"
    and unk: "''socratic'' \<notin> set ?known"
    by simp_all
  from unknown_variant_aborts [where proc = ?p and s = "\<lparr>outside = (), spawned = []\<rparr>",
      OF cfg req mem unk]
  show ?thesis
    by (simp add: prod_eq_iff)
qed

section \<open>Properties of the debates summary\<close>

lemma acquire_waited:
  "waited (snd (acquire f n w)) \<le> waited w + n"
  by (simp add: acquire_def split: lock_file_state.splits)

lemma acquire_keeps:
  "excel_file (snd (acquire f n w)) = excel_file w"
  "write_error (snd (acquire f n w)) = write_error w"
  "logged (snd (acquire f n w)) = logged w"
  by (simp_all add: acquire_def split: lock_file_state.splits)

lemma locked_section_waited:
  "waited (snd (locked_section ti cd ht ci re ro w)) = waited w"
  by (simp add: locked_section_def load_frame_def logger_error_def logger_info_def
      split: xlsx_file.splits option.splits prod.splits)

lemma save_waited:
  "waited (snd (save_debate_in_excel ti cd ht ci re ro w)) \<le> waited w + 30"
proof -
  obtain r w1 where a: "acquire lock_file_name 30 w = (r, w1)"
    by (cases "acquire lock_file_name 30 w")
  then have b: "waited w1 \<le> waited w + 30"
    using acquire_waited [of lock_file_name 30 w] by simp
  show ?thesis
  proof (cases r)
    case (Inl e)
    with a b show ?thesis
      by (simp add: save_debate_in_excel_def logger_error_def)
  next
    case (Inr u)
    obtain q w2 where l: "locked_section ti cd ht ci re ro w1 = (q, w2)"
      by (cases "locked_section ti cd ht ci re ro w1")
    then have "waited w2 = waited w1"
      using locked_section_waited [of ti cd ht ci re ro w1] by simp
    with a b Inr l show ?thesis
      by (cases q) (simp_all add: save_debate_in_excel_def logger_error_def)
  qed
qed

lemma save_acquired:
  assumes "lock_state w = ReleasedAfter t" and "t \<le> 30"
  shows "save_debate_in_excel ti cd ht ci re ro w =
     (case locked_section ti cd ht ci re ro (w\<lparr>waited := waited w + t\<rparr>) of
        (Inr b, w') \<Rightarrow> (Inr b, w')
      | (Inl e, w') \<Rightarrow>
          (Inr False, logger_error (''Error saving debate to Excel: '' @ exception_text e) w'))"
  using assms by (simp add: save_debate_in_excel_def acquire_def)

lemma save_not_acquired:
  assumes "\<not> (\<exists>t. lock_state w = ReleasedAfter t \<and> t \<le> 30)"
  shows "fst (save_debate_in_excel ti cd ht ci re ro w) = Inr False"
  using assms
  by (cases "lock_state w") (auto simp: save_debate_in_excel_def acquire_def)

lemma load_frame_last:
  "\<exists>rows. fst (load_frame nr w) = rows @ [nr]"
  by (cases "excel_file w") (auto simp: load_frame_def)

lemma load_frame_write_error:
  "write_error (snd (load_frame nr w)) = write_error w"
  by (cases "excel_file w") (auto simp: load_frame_def logger_error_def)

lemma locked_section_result:
  "fst (locked_section ti cd ht ci re ro w) = Inr True \<longleftrightarrow> write_error w = None"
proof -
  obtain df w1 where lf: "load_frame (new_row ti cd ht ci re ro) w = (df, w1)"
    by (cases "load_frame (new_row ti cd ht ci re ro) w")
  with load_frame_write_error [of "new_row ti cd ht ci re ro" w]
  have we: "write_error w1 = write_error w" by simp
  show ?thesis
  proof (cases "write_error w")
    case None
    with lf we show ?thesis by (simp add: locked_section_def)
  next
    case (Some p)
    with lf we show ?thesis by (cases p) (simp add: locked_section_def)
  qed
qed

lemma locked_section_sheet:
  assumes "write_error w = None"
  shows "\<exists>rows. excel_file (snd (locked_section ti cd ht ci re ro w))
           = Sheet (rows @ [new_row ti cd ht ci re ro])"
proof -
  obtain df w1 where lf: "load_frame (new_row ti cd ht ci re ro) w = (df, w1)"
    by (cases "load_frame (new_row ti cd ht ci re ro) w")
  with load_frame_write_error [of "new_row ti cd ht ci re ro" w] assms
  have we: "write_error w1 = None" by simp
  from lf load_frame_last [of "new_row ti cd ht ci re ro" w]
  obtain rows where "df = rows @ [new_row ti cd ht ci re ro]" by auto
  with lf we show ?thesis
    by (simp add: locked_section_def logger_info_def)
qed

lemma append_adds_one_row:
  assumes "lock_state w = ReleasedAfter t" and "t \<le> 30"
    and "excel_file w = Sheet rows" and "write_error w = None"
  shows "fst (save_debate_in_excel ti cd ht ci re ro w) = Inr True"
    and "excel_file (snd (save_debate_in_excel ti cd ht ci re ro w))
           = Sheet (rows @ [new_row ti cd ht ci re ro])"
  using assms
  by (simp_all add: save_acquired locked_section_def load_frame_def logger_info_def)

text \<open>
  C4. Every call of \<open>save_debate_in_excel\<close> waits for the lock at most 30 time units.
  When the lock is not released within 30 units, entering \<open>with lock\<close> raises
  \<open>filelock.Timeout\<close> after exactly 30 units; the caller gets the failure value
  \<open>False\<close>, the error is logged with the text of the timeout, and the summary file is
  what it was: no row is added and a missing file stays missing.
\<close>

theorem lock_timeout_no_write:
  "waited (snd (save_debate_in_excel ti cd ht ci re ro w)) \<le> waited w + 30
   \<and> (lock_state w = HeldForever \<or> (\<exists>t. lock_state w = ReleasedAfter t \<and> 30 < t) \<longrightarrow>
        fst (acquire lock_file_name 30 w) = Inl (Timeout lock_file_name)
        \<and> fst (save_debate_in_excel ti cd ht ci re ro w) = Inr False
        \<and> excel_file (snd (save_debate_in_excel ti cd ht ci re ro w)) = excel_file w
        \<and> waited (snd (save_debate_in_excel ti cd ht ci re ro w)) = waited w + 30
        \<and> logged (snd (save_debate_in_excel ti cd ht ci re ro w)) =
            logged w @ [(ERROR, ''Error saving debate to Excel: ''
                                  @ exception_text (Timeout lock_file_name), ''system'')])"
proof (intro conjI impI)
  show "waited (snd (save_debate_in_excel ti cd ht ci re ro w)) \<le> waited w + 30"
    by (rule save_waited)
next
  assume h: "lock_state w = HeldForever \<or> (\<exists>t. lock_state w = ReleasedAfter t \<and> 30 < t)"
  then have a: "acquire lock_file_name 30 w
      = (Inl (Timeout lock_file_name), w\<lparr>waited := waited w + 30\<rparr>)"
    by (auto simp: acquire_def)
  then show "fst (acquire lock_file_name 30 w) = Inl (Timeout lock_file_name)" by simp
  from a show "fst (save_debate_in_excel ti cd ht ci re ro w) = Inr False"
    by (simp add: save_debate_in_excel_def)
  from a show "excel_file (snd (save_debate_in_excel ti cd ht ci re ro w)) = excel_file w"
    by (simp add: save_debate_in_excel_def logger_error_def)
  from a show "waited (snd (save_debate_in_excel ti cd ht ci re ro w)) = waited w + 30"
    by (simp add: save_debate_in_excel_def logger_error_def)
  from a show "logged (snd (save_debate_in_excel ti cd ht ci re ro w)) =
            logged w @ [(ERROR, ''Error saving debate to Excel: ''
                                  @ exception_text (Timeout lock_file_name), ''system'')]"
    by (simp add: save_debate_in_excel_def logger_error_def)
qed

theorem lock_timeout_no_write_witness:
  "save_debate_in_excel (PyInt 3) [(''claim'', PyStr ''Cats are liquid'')] (PyStr ''vanilla'')
     (PyStr ''c1'') (PyInt 1) (PyInt 4)
     \<lparr>lock_state = ReleasedAfter 31, excel_file = Missing, write_error = None,
      logged = [], waited = 0\<rparr>
   = (Inr False,
      \<lparr>lock_state = ReleasedAfter 31, excel_file = Missing, write_error = None,
       logged = [(ERROR, ''Error saving debate to Excel: The file lock '' @ [CHR 0x27]
                          @ ''all_debates_summary.xlsx.lock'' @ [CHR 0x27]
                          @ '' could not be acquired.'', ''system'')],
       waited = 30\<rparr>)"
proof -
  let ?w = "\<lparr>lock_state = ReleasedAfter 31, excel_file = Missing, write_error = None,
      logged = [], waited = 0\<rparr>"
  have "lock_state ?w = HeldForever \<or> (\<exists>t. lock_state ?w = ReleasedAfter t \<and> 30 < t)"
    by simp
  with lock_timeout_no_write [where w = ?w and ti = "PyInt 3"
      and cd = "[(''claim'', PyStr ''Cats are liquid'')]" and ht = "PyStr ''vanilla''"
      and ci = "PyStr ''c1''" and re = "PyInt 1" and ro = "PyInt 4"]
  have "fst (save_debate_in_excel (PyInt 3) [(''claim'', PyStr ''Cats are liquid'')]
          (PyStr ''vanilla'') (PyStr ''c1'') (PyInt 1) (PyInt 4) ?w) = Inr False"
    by blast
  then show ?thesis
    by (simp add: save_debate_in_excel_def acquire_def logger_error_def lock_file_name_def)
qed

text \<open>
  C5. When the summary file exists but cannot be read (the lock having been acquired, and
  the write of the file working), the read error is logged, the call goes on as if the table
  were empty, the file is rewritten as a sheet holding the new row alone, and the call
  returns \<open>True\<close>.
\<close>

theorem corrupt_table_recreated:
  assumes "lock_state w = ReleasedAfter t" and "t \<le> 30"
    and "excel_file w = Unreadable e"
    and "write_error w = None"
  shows "fst (save_debate_in_excel ti cd ht ci re ro w) = Inr True
       \<and> excel_file (snd (save_debate_in_excel ti cd ht ci re ro w))
           = Sheet [new_row ti cd ht ci re ro]
       \<and> logged (snd (save_debate_in_excel ti cd ht ci re ro w))
           = logged w @
             [(ERROR, ''Error reading existing Excel file: '' @ exception_text e, ''system''),
              (INFO, ''Successfully updated debate summary in '' @ excel_file_name, ''system'')]"
  using assms
  by (simp add: save_acquired locked_section_def load_frame_def logger_error_def logger_info_def)

theorem corrupt_table_recreated_witness:
  "save_debate_in_excel (PyInt 3) [(''claim'', PyStr ''Cats are liquid'')] (PyStr ''vanilla'')
     (PyStr ''c1'') (PyInt 1) (PyInt 4)
     \<lparr>lock_state = ReleasedAfter 2,
      excel_file = Unreadable (ParseError ''File is not a zip file''),
      write_error = None, logged = [], waited = 0\<rparr>
   = (Inr True,
      \<lparr>lock_state = ReleasedAfter 2,
       excel_file = Sheet [[(''topic_id'', PyInt 3), (''claim'', PyStr ''Cats are liquid''),
                            (''helper_type'', PyStr ''vanilla''), (''result'', PyInt 1),
                            (''rounds'', PyInt 4), (''chat_id'', PyStr ''c1'')]],
       write_error = None,
       logged = [(ERROR, ''Error reading existing Excel file: File is not a zip file'', ''system''),
                 (INFO, ''Successfully updated debate summary in all_debates_summary.xlsx'', ''system'')],
       waited = 2\<rparr>)"
proof -
  let ?w = "\<lparr>lock_state = ReleasedAfter 2,
      excel_file = Unreadable (ParseError ''File is not a zip file''),
      write_error = None, logged = [], waited = 0\<rparr>"
  have "lock_state ?w = ReleasedAfter 2" and "(2::nat) \<le> 30"
    and "excel_file ?w = Unreadable (ParseError ''File is not a zip file'')"
    and "write_error ?w = None"
    by simp_all
  from corrupt_table_recreated [OF this, of "PyInt 3" "[(''claim'', PyStr ''Cats are liquid'')]"
      "PyStr ''vanilla''" "PyStr ''c1''" "PyInt 1" "PyInt 4"]
  have "fst (save_debate_in_excel (PyInt 3) [(''claim'', PyStr ''Cats are liquid'')]
          (PyStr ''vanilla'') (PyStr ''c1'') (PyInt 1) (PyInt 4) ?w) = Inr True"
    by blast
  then show ?thesis
    by (simp add: save_debate_in_excel_def acquire_def locked_section_def load_frame_def
        logger_error_def logger_info_def new_row_def dict_get_def excel_file_name_def)
qed

text \<open>
  C10, as amended. \<open>save_debate_in_excel\<close> never raises: it returns a boolean. It returns
  \<open>True\<close> exactly when the lock is acquired within 30 time units and writing the file
  succeeds; a lock timeout, any other error of the lock and a write error give \<open>False\<close>,
  while an error reading the existing file does not. On success the file ends with the new
  row, and the claim of that row is \<open>'Unknown claim'\<close> when \<open>claim_data\<close> has no key
  \<open>'claim'\<close>.
\<close>

theorem save_never_raises:
  "(\<exists>b. fst (save_debate_in_excel ti cd ht ci re ro w) = Inr b)
   \<and> (fst (save_debate_in_excel ti cd ht ci re ro w) = Inr True
        \<longleftrightarrow> (\<exists>t. lock_state w = ReleasedAfter t \<and> t \<le> 30) \<and> write_error w = None)
   \<and> (fst (save_debate_in_excel ti cd ht ci re ro w) = Inr True \<longrightarrow>
        (\<exists>rows. excel_file (snd (save_debate_in_excel ti cd ht ci re ro w))
                  = Sheet (rows @ [new_row ti cd ht ci re ro])))
   \<and> (map_of cd ''claim'' = None \<longrightarrow>
        map_of (new_row ti cd ht ci re ro) ''claim'' = Some (PyStr ''Unknown claim''))"
proof (intro conjI)
  show "\<exists>b. fst (save_debate_in_excel ti cd ht ci re ro w) = Inr b"
    by (auto simp: save_debate_in_excel_def split: prod.splits sum.splits)
  show iff: "fst (save_debate_in_excel ti cd ht ci re ro w) = Inr True
        \<longleftrightarrow> (\<exists>t. lock_state w = ReleasedAfter t \<and> t \<le> 30) \<and> write_error w = None"
  proof (cases "\<exists>t. lock_state w = ReleasedAfter t \<and> t \<le> 30")
    case False
    with save_not_acquired [OF False, of ti cd ht ci re ro] show ?thesis by simp
  next
    case True
    then obtain t where t: "lock_state w = ReleasedAfter t" "t \<le> 30" by blast
    let ?w = "w\<lparr>waited := waited w + t\<rparr>"
    have "fst (save_debate_in_excel ti cd ht ci re ro w) = Inr True
        \<longleftrightarrow> fst (locked_section ti cd ht ci re ro ?w) = Inr True"
      by (auto simp: save_acquired [OF t] split: prod.splits sum.splits)
    with locked_section_result [of ti cd ht ci re ro ?w] True show ?thesis by simp
  qed
  show "fst (save_debate_in_excel ti cd ht ci re ro w) = Inr True \<longrightarrow>
        (\<exists>rows. excel_file (snd (save_debate_in_excel ti cd ht ci re ro w))
                  = Sheet (rows @ [new_row ti cd ht ci re ro]))"
  proof
    assume ok: "fst (save_debate_in_excel ti cd ht ci re ro w) = Inr True"
    with iff obtain t where t: "lock_state w = ReleasedAfter t" "t \<le> 30"
      and we: "write_error w = None" by blast
    let ?w = "w\<lparr>waited := waited w + t\<rparr>"
    from we have we': "write_error ?w = None" by simp
    from locked_section_result [of ti cd ht ci re ro ?w] we'
    have res: "fst (locked_section ti cd ht ci re ro ?w) = Inr True" by simp
    then have "snd (save_debate_in_excel ti cd ht ci re ro w) = snd (locked_section ti cd ht ci re ro ?w)"
      by (auto simp: save_acquired [OF t] split: prod.splits sum.splits)
    with locked_section_sheet [OF we', of ti cd ht ci re ro]
    show "\<exists>rows. excel_file (snd (save_debate_in_excel ti cd ht ci re ro w))
                  = Sheet (rows @ [new_row ti cd ht ci re ro])" by simp
  qed
  show "map_of cd ''claim'' = None \<longrightarrow>
        map_of (new_row ti cd ht ci re ro) ''claim'' = Some (PyStr ''Unknown claim'')"
    by (simp add: new_row_def dict_get_def)
qed

theorem save_never_raises_witness:
  "fst (save_debate_in_excel (PyInt 3) [(''source'', PyStr ''wiki'')] (PyStr ''vanilla'')
     (PyStr ''c1'') (PyInt 1) (PyInt 4)
     \<lparr>lock_state = ReleasedAfter 0,
      excel_file = Sheet [[(''topic_id'', PyInt 1)]],
      write_error = None, logged = [], waited = 0\<rparr>) = Inr True
   \<and> excel_file (snd (save_debate_in_excel (PyInt 3) [(''source'', PyStr ''wiki'')] (PyStr ''vanilla'')
     (PyStr ''c1'') (PyInt 1) (PyInt 4)
     \<lparr>lock_state = ReleasedAfter 0,
      excel_file = Sheet [[(''topic_id'', PyInt 1)]],
      write_error = None, logged = [], waited = 0\<rparr>))
     = Sheet [[(''topic_id'', PyInt 1)],
              [(''topic_id'', PyInt 3), (''claim'', PyStr ''Unknown claim''),
               (''helper_type'', PyStr ''vanilla''), (''result'', PyInt 1),
               (''rounds'', PyInt 4), (''chat_id'', PyStr ''c1'')]]
   \<and> fst (save_debate_in_excel (PyInt 3) [(''source'', PyStr ''wiki'')] (PyStr ''vanilla'')
     (PyStr ''c1'') (PyInt 1) (PyInt 4)
     \<lparr>lock_state = Unusable (OSError ''Read-only file system''),
      excel_file = Missing,
      write_error = None, logged = [], waited = 0\<rparr>) = Inr False"
proof -
  let ?w = "\<lparr>lock_state = ReleasedAfter 0,
      excel_file = Sheet [[(''topic_id'', PyInt 1)]],
      write_error = None, logged = [], waited = 0\<rparr>"
  have "(\<exists>t. lock_state ?w = ReleasedAfter t \<and> t \<le> 30) \<and> write_error ?w = None"
    by simp
  with save_never_raises [where w = ?w and ti = "PyInt 3" and cd = "[(''source'', PyStr ''wiki'')]"
      and ht = "PyStr ''vanilla''" and ci = "PyStr ''c1''" and re = "PyInt 1" and ro = "PyInt 4"]
  have "fst (save_debate_in_excel (PyInt 3) [(''source'', PyStr ''wiki'')] (PyStr ''vanilla'')
     (PyStr ''c1'') (PyInt 1) (PyInt 4) ?w) = Inr True"
    by blast
  then show ?thesis
    by (simp add: save_debate_in_excel_def acquire_def locked_section_def load_frame_def
        logger_error_def logger_info_def new_row_def dict_get_def)
qed

text \<open>
  C10 as stated counts read errors among the failures reported as \<open>False\<close>: with an
  existing file that cannot be read, a free lock and a working write, the call returns
  \<open>True\<close>.
\<close>

theorem read_error_returns_True:
  "fst (save_debate_in_excel (PyInt 3) [(''claim'', PyStr ''Cats are liquid'')] (PyStr ''vanilla'')
     (PyStr ''c1'') (PyInt 1) (PyInt 4)
     \<lparr>lock_state = ReleasedAfter 0,
      excel_file = Unreadable (OSError ''Input/output error''),
      write_error = None, logged = [], waited = 0\<rparr>) = Inr True"
  by (simp add: save_debate_in_excel_def acquire_def locked_section_def load_frame_def
      logger_error_def logger_info_def)

section \<open>Properties of the log formatter and the filters\<close>

lemma keys_dict_set:
  "map fst (dict_set d k v) = (if k \<in> set (map fst d) then map fst d else map fst d @ [k])"
  by (induction d) (auto simp: dict_set_def)

lemma dict_set_new:
  "k \<notin> set (map fst d) \<Longrightarrow> dict_set d k v = d @ [(k, v)]"
  by (simp add: dict_set_def)

lemma distinct_dict_set:
  "distinct (map fst d) \<Longrightarrow> distinct (map fst (dict_set d k v))"
  by (simp add: keys_dict_set)

lemma set_keys_dict_set:
  "fst ` set (dict_set d k v) = insert k (fst ` set d)"
  using arg_cong [OF keys_dict_set [of d k v], of set] by auto

lemma distinct_dict_update:
  "distinct (map fst d) \<Longrightarrow> distinct (map fst (dict_update d e))"
  by (induction d e rule: dict_update.induct) (simp_all add: distinct_dict_set)

lemma set_keys_dict_update:
  "fst ` set (dict_update d e) = fst ` set d \<union> fst ` set e"
  by (induction d e rule: dict_update.induct) (auto simp: set_keys_dict_set)

lemma dict_update_append:
  "distinct (map fst e) \<Longrightarrow> set (map fst e) \<inter> set (map fst d) = {} \<Longrightarrow> dict_update d e = d @ e"
proof (induction d e rule: dict_update.induct)
  case (1 d)
  then show ?case by simp
next
  case (2 d k v rest)
  from "2.prems" have k: "k \<notin> set (map fst d)" by auto
  then have step: "dict_set d k v = d @ [(k, v)]" by (rule dict_set_new)
  from "2.prems" have "distinct (map fst rest)"
    and "set (map fst rest) \<inter> set (map fst (dict_set d k v)) = {}"
    by (auto simp: step)
  from "2.IH" [OF this] step show ?case by simp
qed

lemma distinct_extras_loop:
  "distinct (map fst m) \<Longrightarrow> distinct (map fst (extras_loop r as m))"
  by (induction as arbitrary: m) (auto simp: distinct_dict_set split: option.splits)

lemma set_keys_extras_loop:
  "fst ` set (extras_loop r as m) = fst ` set m \<union> {a \<in> set as. attributes r a \<noteq> None}"
  by (induction as arbitrary: m) (auto simp: set_keys_dict_set split: option.splits)

lemma map_filter_cong_set:
  "(\<And>x. x \<in> set xs \<Longrightarrow> f x = g x) \<Longrightarrow> List.map_filter f xs = List.map_filter g xs"
  by (induction xs) (simp_all split: option.splits)

lemma extras_loop_append:
  "distinct as \<Longrightarrow>
   extras_loop r as m =
     m @ List.map_filter
           (\<lambda>a. if a \<in> set (map fst m) then None else map_option (Pair a) (attributes r a)) as"
proof (induction as arbitrary: m)
  case Nil
  then show ?case by simp
next
  case (Cons a as)
  from Cons.prems have d: "distinct as" and na: "a \<notin> set as" by simp_all
  show ?case
  proof (cases "attributes r a")
    case None
    with Cons.IH [OF d, of m] show ?thesis by simp
  next
    case (Some v)
    show ?thesis
    proof (cases "a \<in> set (map fst m)")
      case True
      with Some Cons.IH [OF d, of m] show ?thesis by simp
    next
      case False
      have same: "List.map_filter
           (\<lambda>x. if x \<in> set (map fst (m @ [(a, v)])) then None else map_option (Pair x) (attributes r x)) as
         = List.map_filter
           (\<lambda>x. if x \<in> set (map fst m) then None else map_option (Pair x) (attributes r x)) as"
        using na by (intro map_filter_cong_set) auto
      from False Some Cons.IH [OF d, of "m @ [(a, v)]"] same show ?thesis
        by (simp add: dict_set_new)
    qed
  qed
qed

lemma map_of_filter_neq:
  "map_of (filter (\<lambda>(k, _). k \<noteq> s) d) x = (if x = s then None else map_of d x)"
  by (induction d) auto

lemma drawn_value_Suc_popped:
  "drawn_value r ai ((k, s) # rest) (Suc j) = drawn_value r (filter (\<lambda>(k, _). k \<noteq> s) ai) rest j"
  by (simp add: drawn_value_def map_of_filter_neq split: option.splits)

lemma drawn_value_Suc_kept:
  "map_of ai s = None \<Longrightarrow> drawn_value r ai ((k, s) # rest) (Suc j) = drawn_value r ai rest j"
  by (simp add: drawn_value_def split: option.splits)

lemma drawn_value_0:
  "drawn_value r ai ((k, s) # rest) 0 =
     (case map_of ai s of Some v \<Rightarrow> Some v | None \<Rightarrow> attributes r s)"
  by (simp add: drawn_value_def split: option.splits)

lemma filter_not_key:
  "map_of ai s = None \<Longrightarrow> filter (\<lambda>(k, _). k \<noteq> s) ai = ai"
  by (induction ai) (auto split: if_splits)

lemma declared_loop_succeeds:
  assumes "\<forall>i<length fmt. drawn_value r ai fmt i \<noteq> None"
    and "distinct (map fst fmt)"
    and "fst ` set fmt \<inter> fst ` set msg = {}"
  shows "\<exists>vals. declared_loop r fmt (ai, msg)
             = Inr (filter (\<lambda>(k, _). k \<notin> snd ` set fmt) ai, msg @ vals)
           \<and> map fst vals = map fst fmt
           \<and> (\<forall>i<length fmt. Some (snd (vals ! i)) = drawn_value r ai fmt i)"
  using assms
proof (induction fmt arbitrary: ai msg)
  case Nil
  then show ?case by simp
next
  case (Cons p rest)
  obtain k s where p: "p = (k, s)" by (cases p)
  let ?ai = "filter (\<lambda>(k, _). k \<noteq> s) ai"
  from Cons.prems(1) p have head: "drawn_value r ai ((k, s) # rest) 0 \<noteq> None" by auto
  then obtain v where v: "(case map_of ai s of Some v \<Rightarrow> Some v | None \<Rightarrow> attributes r s) = Some v"
    by (auto simp: drawn_value_0)
  from Cons.prems(1) p have tail: "\<forall>j<length rest. drawn_value r ?ai rest j \<noteq> None"
    using drawn_value_Suc_popped [of r ai k s rest] by auto
  from Cons.prems(3) p have knew: "k \<notin> set (map fst msg)" by auto
  from Cons.prems(2,3) p have d: "distinct (map fst rest)"
    and disj: "fst ` set rest \<inter> fst ` set (msg @ [(k, v)]) = {}"
    by (auto simp: image_iff)
  from Cons.IH [OF tail d disj] obtain vals where
    run: "declared_loop r rest (?ai, msg @ [(k, v)])
            = Inr (filter (\<lambda>(k, _). k \<notin> snd ` set rest) ?ai, (msg @ [(k, v)]) @ vals)"
    and keys: "map fst vals = map fst rest"
    and vals: "\<forall>j<length rest. Some (snd (vals ! j)) = drawn_value r ?ai rest j"
    by blast
  have step: "declared_loop r (p # rest) (ai, msg) = declared_loop r rest (?ai, msg @ [(k, v)])"
  proof (cases "map_of ai s")
    case None
    with v have "attributes r s = Some v" by simp
    with None p knew show ?thesis by (simp add: dict_set_new filter_not_key)
  next
    case (Some u)
    with v have "u = v" by simp
    with Some p knew show ?thesis by (simp add: dict_set_new)
  qed
  have fin: "filter (\<lambda>(k, _). k \<notin> snd ` set rest) ?ai = filter (\<lambda>(k, _). k \<notin> snd ` set (p # rest)) ai"
    using p by (auto intro: filter_cong)
  have "\<forall>i<length (p # rest). Some (snd (((k, v) # vals) ! i)) = drawn_value r ai (p # rest) i"
  proof (intro allI impI)
    fix i
    assume i: "i < length (p # rest)"
    show "Some (snd (((k, v) # vals) ! i)) = drawn_value r ai (p # rest) i"
    proof (cases i)
      case 0
      with v p show ?thesis by (simp add: drawn_value_0)
    next
      case (Suc j)
      with i vals p show ?thesis by (simp add: drawn_value_Suc_popped)
    qed
  qed
  with step run fin keys p show ?case
    by (intro exI [of _ "(k, v) # vals"]) simp
qed

lemma declared_loop_fails:
  assumes "i < length fmt" and "drawn_value r ai fmt i = None"
  shows "\<exists>e. declared_loop r fmt (ai, msg) = Inl e"
  using assms
proof (induction fmt arbitrary: ai msg i)
  case Nil
  then show ?case by simp
next
  case (Cons p rest)
  obtain k s where p: "p = (k, s)" by (cases p)
  let ?ai = "filter (\<lambda>(k, _). k \<noteq> s) ai"
  show ?case
  proof (cases "map_of ai s")
    case (Some v)
    with Cons.prems p obtain j where j: "i = Suc j" "j < length rest"
      by (cases i) (auto simp: drawn_value_0)
    with Cons.prems(2) p have "drawn_value r ?ai rest j = None"
      by (simp add: drawn_value_Suc_popped)
    from Cons.IH [OF j(2) this] Some p show ?thesis by simp
  next
    case None
    show ?thesis
    proof (cases "attributes r s")
      case None
      with \<open>map_of ai s = None\<close> p show ?thesis by simp
    next
      case (Some v)
      with Cons.prems p \<open>map_of ai s = None\<close> obtain j where j: "i = Suc j" "j < length rest"
        by (cases i) (auto simp: drawn_value_0)
      with Cons.prems(2) p \<open>map_of ai s = None\<close> have "drawn_value r ai rest j = None"
        by (simp add: drawn_value_Suc_kept)
      from Cons.IH [OF j(2) this] Some \<open>map_of ai s = None\<close> p show ?thesis by simp
    qed
  qed
qed

lemma declared_loop_keys:
  assumes "declared_loop r fmt (ai, msg) = Inr (ai', msg')"
  shows "fst ` set msg' = fst ` set msg \<union> fst ` set fmt
       \<and> ai' = filter (\<lambda>(k, _). k \<notin> snd ` set fmt) ai
       \<and> (distinct (map fst msg) \<longrightarrow> distinct (map fst msg'))"
  using assms
proof (induction fmt arbitrary: ai msg)
  case Nil
  then show ?case by simp
next
  case (Cons p rest)
  obtain k s where p: "p = (k, s)" by (cases p)
  let ?ai = "filter (\<lambda>(k, _). k \<noteq> s) ai"
  have fin: "filter (\<lambda>(k, _). k \<notin> snd ` set rest) ?ai = filter (\<lambda>(k, _). k \<notin> snd ` set (p # rest)) ai"
    using p by (auto intro: filter_cong)
  from Cons.prems p obtain v where
    run: "declared_loop r rest (?ai, dict_set msg k v) = Inr (ai', msg')"
    by (cases "map_of ai s"; cases "attributes r s") (auto simp: filter_not_key)
  from Cons.IH [OF run] fin p show ?case
    by (auto simp: set_keys_dict_set distinct_dict_set)
qed

lemma declared_loop_returns:
  assumes "\<forall>i<length fmt. drawn_value r ai fmt i \<noteq> None"
  shows "\<exists>res. declared_loop r fmt (ai, msg) = Inr res"
  using assms
proof (induction fmt arbitrary: ai msg)
  case Nil
  then show ?case by simp
next
  case (Cons p rest)
  obtain k s where p: "p = (k, s)" by (cases p)
  let ?ai = "filter (\<lambda>(k, _). k \<noteq> s) ai"
  from Cons.prems p have head: "drawn_value r ai ((k, s) # rest) 0 \<noteq> None" by auto
  from Cons.prems p have tail: "\<forall>j<length rest. drawn_value r ?ai rest j \<noteq> None"
    using drawn_value_Suc_popped [of r ai k s rest] by auto
  show ?case
  proof (cases "map_of ai s")
    case (Some v)
    with Cons.IH [OF tail, of "dict_set msg k v"] p show ?thesis by simp
  next
    case None
    with head obtain v where v: "attributes r s = Some v"
      by (auto simp: drawn_value_0)
    with None Cons.IH [OF tail, of "dict_set msg k v"] p show ?thesis
      by (simp add: filter_not_key)
  qed
qed

lemma computed_keys:
  "fst ` set (remaining_computed r fmt) \<subseteq> {''message'', ''timestamp''}"
  "distinct (map fst (remaining_computed r fmt))"
  "n \<in> fst ` set (remaining_computed r fmt) \<longleftrightarrow>
     n \<in> {''message'', ''timestamp''} \<and> n \<notin> snd ` set fmt"
  by (auto simp: remaining_computed_def computed_values_def)

lemma map_filter_keys:
  "fst ` set (List.map_filter (\<lambda>a. if a \<in> K then None else map_option (Pair a) (g a)) xs)
     = {a \<in> set xs. g a \<noteq> None \<and> a \<notin> K}"
  by (induction xs) (auto split: option.splits)

lemma fixed_fields_keys:
  "fst ` set (fixed_fields r fmt) =
     {a \<in> set extra_attrs. attributes r a \<noteq> None \<and> a \<notin> fst ` set fmt}"
  unfolding fixed_fields_def set_map by (rule map_filter_keys)

lemma prepare_keys:
  assumes "prepare_log_dict fmt r = Inr env"
  shows "fst ` set env = fst ` set fmt \<union> {a \<in> set extra_attrs. attributes r a \<noteq> None}
                         \<union> fst ` set (remaining_computed r fmt)"
    and "distinct (map fst env)"
proof -
  from assms obtain ai' msg' where
    run: "declared_loop r fmt (computed_values r, []) = Inr (ai', msg')"
    and env: "env = dict_update (extras_loop r extra_attrs msg') ai'"
    by (auto simp: prepare_log_dict_def computed_values_def split: sum.splits)
  from declared_loop_keys [OF run] have
    k: "fst ` set msg' = fst ` set fmt" and a: "ai' = remaining_computed r fmt"
    and d: "distinct (map fst msg')"
    by (simp_all add: remaining_computed_def)
  from env k a show "fst ` set env = fst ` set fmt \<union> {a \<in> set extra_attrs. attributes r a \<noteq> None}
                         \<union> fst ` set (remaining_computed r fmt)"
    by (simp add: set_keys_dict_update set_keys_extras_loop)
  from env d show "distinct (map fst env)"
    by (simp add: distinct_dict_update distinct_extras_loop)
qed

lemma MainDebateFilter_iff:
  "MainDebateFilter r \<longleftrightarrow> attributes r ''msg_type'' = Some (PyStr ''main debate'')"
  by (simp add: MainDebateFilter_def getattr_default_def split: option.splits)

lemma PersuadorHelperFilter_iff:
  "PersuadorHelperFilter r \<longleftrightarrow> attributes r ''msg_type'' = Some (PyStr ''persuador_helper'')"
  by (simp add: PersuadorHelperFilter_def getattr_default_def split: option.splits)

text \<open>
  C6, as amended. Whatever the field order and the record, an envelope that is produced
  holds no key twice. When the field order has distinct output keys, every declared source
  is available (it names a computed value that no earlier entry has drawn, or an attribute
  the record has), and no output key is named after a computed value that stays undrawn,
  the envelope is the concatenation of three stages: the declared keys in their order,
  each with the value of its source; then those of \<open>msg_type\<close>, \<open>speaker\<close>,
  \<open>receiver\<close>, \<open>sender\<close>, \<open>round\<close>, \<open>topic\<close> that the record has and that
  are not declared keys, in this order; then the computed values not drawn.
\<close>

theorem envelope_three_stages:
  "(\<forall>env. prepare_log_dict fmt_keys r = Inr env \<longrightarrow> distinct (map fst env))
   \<and> (distinct (map fst fmt_keys)
        \<and> (\<forall>i<length fmt_keys. source_value r fmt_keys i \<noteq> None)
        \<and> fst ` set (remaining_computed r fmt_keys) \<inter> fst ` set fmt_keys = {}
      \<longrightarrow> (\<exists>declared.
             prepare_log_dict fmt_keys r
               = Inr (declared @ fixed_fields r fmt_keys @ remaining_computed r fmt_keys)
             \<and> map fst declared = map fst fmt_keys
             \<and> (\<forall>i<length fmt_keys. Some (snd (declared ! i)) = source_value r fmt_keys i)))"
proof (intro conjI allI impI)
  fix env
  assume "prepare_log_dict fmt_keys r = Inr env"
  then show "distinct (map fst env)" by (rule prepare_keys(2))
next
  assume h: "distinct (map fst fmt_keys)
        \<and> (\<forall>i<length fmt_keys. source_value r fmt_keys i \<noteq> None)
        \<and> fst ` set (remaining_computed r fmt_keys) \<inter> fst ` set fmt_keys = {}"
  then have all: "\<forall>i<length fmt_keys. drawn_value r (computed_values r) fmt_keys i \<noteq> None"
    by (simp add: source_value_def)
  from h have dk: "distinct (map fst fmt_keys)" by simp
  from declared_loop_succeeds [OF all dk, of "[]"] obtain declared where
    run: "declared_loop r fmt_keys (computed_values r, [])
            = Inr (remaining_computed r fmt_keys, declared)"
    and keys: "map fst declared = map fst fmt_keys"
    and vals: "\<forall>i<length fmt_keys. Some (snd (declared ! i)) = source_value r fmt_keys i"
    by (auto simp: remaining_computed_def source_value_def)
  have dx: "distinct extra_attrs" by (simp add: extra_attrs_def)
  from keys have ks: "set (map fst declared) = set (map fst fmt_keys)" by simp
  have ex: "extras_loop r extra_attrs declared = declared @ fixed_fields r fmt_keys"
    unfolding extras_loop_append [OF dx] fixed_fields_def ks ..
  have kd: "fst ` set declared = fst ` set fmt_keys" using ks by simp
  have "fst ` set (remaining_computed r fmt_keys) \<inter> set extra_attrs = {}"
    using computed_keys(1) [of r fmt_keys] by (auto simp: extra_attrs_def)
  with h have disj: "set (map fst (remaining_computed r fmt_keys))
      \<inter> set (map fst (declared @ fixed_fields r fmt_keys)) = {}"
    by (auto simp: kd fixed_fields_keys)
  from dict_update_append [OF computed_keys(2) disj]
  have "dict_update (declared @ fixed_fields r fmt_keys) (remaining_computed r fmt_keys)
      = declared @ fixed_fields r fmt_keys @ remaining_computed r fmt_keys"
    by simp
  with run ex have "prepare_log_dict fmt_keys r
      = Inr (declared @ fixed_fields r fmt_keys @ remaining_computed r fmt_keys)"
    by (simp add: prepare_log_dict_def computed_values_def)
  with keys vals show "\<exists>declared.
             prepare_log_dict fmt_keys r
               = Inr (declared @ fixed_fields r fmt_keys @ remaining_computed r fmt_keys)
             \<and> map fst declared = map fst fmt_keys
             \<and> (\<forall>i<length fmt_keys. Some (snd (declared ! i)) = source_value r fmt_keys i)"
    by blast
qed

theorem envelope_three_stages_witness:
  "prepare_log_dict [(''level'', ''levelname''), (''message'', ''message''), (''timestamp'', ''timestamp'')]
     \<lparr>attributes = [''levelname'' \<mapsto> PyStr ''INFO'', ''msg_type'' \<mapsto> PyStr ''main debate'',
                     ''speaker'' \<mapsto> PyStr ''pro'', ''round'' \<mapsto> PyInt 3],
      getMessage = ''hello'', created_utc = ''2025-01-01T00:00:00+00:00''\<rparr>
   = Inr [(''level'', PyStr ''INFO''), (''message'', PyStr ''hello''),
          (''timestamp'', PyStr ''2025-01-01T00:00:00+00:00''),
          (''msg_type'', PyStr ''main debate''), (''speaker'', PyStr ''pro''),
          (''round'', PyInt 3)]"
proof -
  let ?fmt = "[(''level'', ''levelname''), (''message'', ''message''), (''timestamp'', ''timestamp'')]"
  let ?r = "\<lparr>attributes = [''levelname'' \<mapsto> PyStr ''INFO'', ''msg_type'' \<mapsto> PyStr ''main debate'',
                     ''speaker'' \<mapsto> PyStr ''pro'', ''round'' \<mapsto> PyInt 3],
      getMessage = ''hello'', created_utc = ''2025-01-01T00:00:00+00:00''\<rparr>"
  have sv: "source_value ?r ?fmt 0 = Some (PyStr ''INFO'')"
    "source_value ?r ?fmt 1 = Some (PyStr ''hello'')"
    "source_value ?r ?fmt 2 = Some (PyStr ''2025-01-01T00:00:00+00:00'')"
    by (simp_all add: source_value_def drawn_value_def computed_values_def)
  have lt: "i < length ?fmt \<longleftrightarrow> i = 0 \<or> i = 1 \<or> i = 2" for i by auto
  have h: "distinct (map fst ?fmt)
        \<and> (\<forall>i<length ?fmt. source_value ?r ?fmt i \<noteq> None)
        \<and> fst ` set (remaining_computed ?r ?fmt) \<inter> fst ` set ?fmt = {}"
    unfolding lt using sv by (auto simp: remaining_computed_def computed_values_def)
  from envelope_three_stages [of ?fmt ?r] h obtain declared where
    env: "prepare_log_dict ?fmt ?r = Inr (declared @ fixed_fields ?r ?fmt @ remaining_computed ?r ?fmt)"
    and keys: "map fst declared = map fst ?fmt"
    and vals: "\<forall>i<length ?fmt. Some (snd (declared ! i)) = source_value ?r ?fmt i"
    by blast
  from keys obtain a b c where d: "declared = [(''level'', a), (''message'', b), (''timestamp'', c)]"
    by (auto simp: map_eq_Cons_conv)
  from vals sv d have "a = PyStr ''INFO''" "b = PyStr ''hello''" "c = PyStr ''2025-01-01T00:00:00+00:00''"
    unfolding lt by auto
  with env d show ?thesis
    by (simp add: fixed_fields_def remaining_computed_def computed_values_def extra_attrs_def
        List.map_filter_def)
qed

text \<open>
  C6 as stated fails for three kinds of field order: one that names an attribute the record
  lacks (here \<open>speaker\<close> on a record without a speaker) raises and emits nothing; one
  whose output key \<open>message\<close> draws from an attribute has that value overwritten in
  place by the message text in the last stage; and one that names the source \<open>message\<close>
  twice draws the second value from the attribute of that name.
\<close>

theorem envelope_three_stages_counterexample:
  "prepare_log_dict [(''speaker'', ''speaker'')]
     \<lparr>attributes = [''name'' \<mapsto> PyStr ''debate_logger'', ''levelname'' \<mapsto> PyStr ''INFO''],
      getMessage = ''hello'', created_utc = ''t0''\<rparr>
     = Inl (AttributeError ''speaker'')
   \<and> prepare_log_dict [(''message'', ''levelname'')]
     \<lparr>attributes = [''name'' \<mapsto> PyStr ''debate_logger'', ''levelname'' \<mapsto> PyStr ''INFO''],
      getMessage = ''hello'', created_utc = ''t0''\<rparr>
     = Inr [(''message'', PyStr ''hello''), (''timestamp'', PyStr ''t0'')]
   \<and> prepare_log_dict [(''a'', ''message''), (''b'', ''message'')]
     \<lparr>attributes = [''name'' \<mapsto> PyStr ''debate_logger'', ''message'' \<mapsto> PyStr ''stale''],
      getMessage = ''hello'', created_utc = ''t0''\<rparr>
     = Inr [(''a'', PyStr ''hello''), (''b'', PyStr ''stale''), (''timestamp'', PyStr ''t0'')]"
  by (simp add: prepare_log_dict_def dict_set_def extra_attrs_def)

text \<open>
  C7, as amended. An envelope is produced exactly when every declared source is available.
  It then has the key \<open>message\<close> (and likewise \<open>timestamp\<close>) exactly when that name
  is a declared output key or no declared entry draws that computed value, and it has each
  of \<open>msg_type\<close>, \<open>speaker\<close>, \<open>receiver\<close>, \<open>sender\<close>, \<open>round\<close>, \<open>topic\<close>
  exactly when the record has that attribute or the name is a declared output key.
\<close>

theorem envelope_keys:
  "((\<exists>env. prepare_log_dict fmt_keys r = Inr env)
      \<longleftrightarrow> (\<forall>i<length fmt_keys. source_value r fmt_keys i \<noteq> None))
   \<and> (\<forall>env. prepare_log_dict fmt_keys r = Inr env \<longrightarrow>
        (\<forall>n \<in> {''message'', ''timestamp''}.
            n \<in> fst ` set env \<longleftrightarrow> n \<in> fst ` set fmt_keys \<or> n \<notin> snd ` set fmt_keys)
        \<and> (\<forall>a \<in> set extra_attrs.
            a \<in> fst ` set env \<longleftrightarrow> attributes r a \<noteq> None \<or> a \<in> fst ` set fmt_keys))"
proof (intro conjI allI impI ballI)
  show "(\<exists>env. prepare_log_dict fmt_keys r = Inr env)
      \<longleftrightarrow> (\<forall>i<length fmt_keys. source_value r fmt_keys i \<noteq> None)"
  proof
    assume "\<exists>env. prepare_log_dict fmt_keys r = Inr env"
    then obtain res where run: "declared_loop r fmt_keys (computed_values r, []) = Inr res"
      by (auto simp: prepare_log_dict_def computed_values_def split: sum.splits)
    show "\<forall>i<length fmt_keys. source_value r fmt_keys i \<noteq> None"
    proof (intro allI impI notI)
      fix i
      assume "i < length fmt_keys" and "source_value r fmt_keys i = None"
      then have "\<exists>e. declared_loop r fmt_keys (computed_values r, []) = Inl e"
        by (intro declared_loop_fails) (simp_all add: source_value_def)
      with run show False by simp
    qed
  next
    assume "\<forall>i<length fmt_keys. source_value r fmt_keys i \<noteq> None"
    then have "\<forall>i<length fmt_keys. drawn_value r (computed_values r) fmt_keys i \<noteq> None"
      by (simp add: source_value_def)
    from declared_loop_returns [OF this, of "[]"]
    show "\<exists>env. prepare_log_dict fmt_keys r = Inr env"
      by (auto simp: prepare_log_dict_def computed_values_def split: sum.splits)
  qed
next
  fix env n
  assume env: "prepare_log_dict fmt_keys r = Inr env"
    and n: "n \<in> {''message'', ''timestamp''}"
  from n have "n \<notin> set extra_attrs" by (auto simp: extra_attrs_def)
  with n show "n \<in> fst ` set env \<longleftrightarrow> n \<in> fst ` set fmt_keys \<or> n \<notin> snd ` set fmt_keys"
    unfolding prepare_keys(1) [OF env] using computed_keys(3) [of n r fmt_keys] by auto
next
  fix env a
  assume env: "prepare_log_dict fmt_keys r = Inr env"
    and a: "a \<in> set extra_attrs"
  from a have "a \<notin> {''message'', ''timestamp''}" by (auto simp: extra_attrs_def)
  with a show "a \<in> fst ` set env \<longleftrightarrow> attributes r a \<noteq> None \<or> a \<in> fst ` set fmt_keys"
    unfolding prepare_keys(1) [OF env] using computed_keys(3) [of a r fmt_keys] by auto
qed

theorem envelope_keys_witness:
  "prepare_log_dict [(''message'', ''message''), (''logger'', ''name'')]
     \<lparr>attributes = [''name'' \<mapsto> PyStr ''debate_logger'', ''speaker'' \<mapsto> PyStr ''pro'',
                     ''round'' \<mapsto> PyInt 3],
      getMessage = ''hello'', created_utc = ''t0''\<rparr>
   = Inr [(''message'', PyStr ''hello''), (''logger'', PyStr ''debate_logger''),
          (''speaker'', PyStr ''pro''), (''round'', PyInt 3), (''timestamp'', PyStr ''t0'')]
   \<and> ''message'' \<in> fst ` set [(''message'', PyStr ''hello''), (''logger'', PyStr ''debate_logger''),
          (''speaker'', PyStr ''pro''), (''round'', PyInt 3), (''timestamp'', PyStr ''t0'')]
   \<and> ''topic'' \<notin> fst ` set [(''message'', PyStr ''hello''), (''logger'', PyStr ''debate_logger''),
          (''speaker'', PyStr ''pro''), (''round'', PyInt 3), (''timestamp'', PyStr ''t0'')]"
proof -
  let ?fmt = "[(''message'', ''message''), (''logger'', ''name'')]"
  let ?r = "\<lparr>attributes = [''name'' \<mapsto> PyStr ''debate_logger'', ''speaker'' \<mapsto> PyStr ''pro'',
                     ''round'' \<mapsto> PyInt 3],
      getMessage = ''hello'', created_utc = ''t0''\<rparr>"
  let ?env = "[(''message'', PyStr ''hello''), (''logger'', PyStr ''debate_logger''),
          (''speaker'', PyStr ''pro''), (''round'', PyInt 3), (''timestamp'', PyStr ''t0'')]"
  have ev: "prepare_log_dict ?fmt ?r = Inr ?env"
    by (simp add: prepare_log_dict_def dict_set_def extra_attrs_def)
  have m: "''message'' \<in> {''message'', ''timestamp''}" and t: "''topic'' \<in> set extra_attrs"
    by (simp_all add: extra_attrs_def)
  from envelope_keys [of ?fmt ?r] ev
  have a: "\<forall>n \<in> {''message'', ''timestamp''}.
            n \<in> fst ` set ?env \<longleftrightarrow> n \<in> fst ` set ?fmt \<or> n \<notin> snd ` set ?fmt"
    and b: "\<forall>a \<in> set extra_attrs.
            a \<in> fst ` set ?env \<longleftrightarrow> attributes ?r a \<noteq> None \<or> a \<in> fst ` set ?fmt"
    by blast+
  from a m have "''message'' \<in> fst ` set ?env" by simp
  moreover from b t have "''topic'' \<notin> fst ` set ?env" by simp
  ultimately show ?thesis using ev by blast
qed

text \<open>
  C7 as stated fails when the field order draws the computed values under other key names
  (no key \<open>message\<close> or \<open>timestamp\<close> is left), when it declares a fixed name as an
  output key (the key is there although the record has no such attribute), and when it names
  an attribute the record lacks (no envelope at all).
\<close>

theorem envelope_keys_counterexample:
  "prepare_log_dict [(''msg'', ''message''), (''ts'', ''timestamp''), (''speaker'', ''name'')]
     \<lparr>attributes = [''name'' \<mapsto> PyStr ''debate_logger'', ''levelname'' \<mapsto> PyStr ''INFO''],
      getMessage = ''hello'', created_utc = ''t0''\<rparr>
   = Inr [(''msg'', PyStr ''hello''), (''ts'', PyStr ''t0''), (''speaker'', PyStr ''debate_logger'')]
   \<and> prepare_log_dict [(''speaker'', ''speaker'')]
     \<lparr>attributes = [''name'' \<mapsto> PyStr ''debate_logger'', ''levelname'' \<mapsto> PyStr ''INFO''],
      getMessage = ''hello'', created_utc = ''t0''\<rparr>
   = Inl (AttributeError ''speaker'')"
  by (simp add: prepare_log_dict_def dict_set_def extra_attrs_def)

text \<open>
  C8. Each filter accepts a record exactly when its \<open>msg_type\<close> is the filter's literal;
  a record reaches exactly the handlers all of whose filters accept it. With one handler per
  filter, a record goes to the main-debate handler, to the helper handler, or nowhere;
  a record without \<open>msg_type\<close> goes nowhere, and the filters never raise. A handler
  carrying the helper filter never takes a record tagged \<open>main debate\<close>, and a handler
  carrying the main-debate filter never takes one tagged \<open>persuador_helper\<close>.
\<close>

theorem filters_route_by_msg_type:
  "(MainDebateFilter r \<longleftrightarrow> attributes r ''msg_type'' = Some (PyStr ''main debate''))
   \<and> (PersuadorHelperFilter r \<longleftrightarrow> attributes r ''msg_type'' = Some (PyStr ''persuador_helper''))
   \<and> callHandlers hs r = map fst (filter (\<lambda>h. \<forall>f \<in> set (snd h). f r) hs)
   \<and> callHandlers [(m, [MainDebateFilter]), (p, [PersuadorHelperFilter])] r =
        (if attributes r ''msg_type'' = Some (PyStr ''main debate'') then [m]
         else if attributes r ''msg_type'' = Some (PyStr ''persuador_helper'') then [p]
         else [])
   \<and> (attributes r ''msg_type'' = None \<longrightarrow>
        callHandlers [(m, [MainDebateFilter]), (p, [PersuadorHelperFilter])] r = [])
   \<and> (attributes r ''msg_type'' = Some (PyStr ''main debate'') \<and> PersuadorHelperFilter \<in> set (snd h)
        \<longrightarrow> \<not> handler_accepts h r)
   \<and> (attributes r ''msg_type'' = Some (PyStr ''persuador_helper'') \<and> MainDebateFilter \<in> set (snd h)
        \<longrightarrow> \<not> handler_accepts h r)"
proof (intro conjI impI)
  show "MainDebateFilter r \<longleftrightarrow> attributes r ''msg_type'' = Some (PyStr ''main debate'')"
    by (rule MainDebateFilter_iff)
  show "PersuadorHelperFilter r \<longleftrightarrow> attributes r ''msg_type'' = Some (PyStr ''persuador_helper'')"
    by (rule PersuadorHelperFilter_iff)
  show "callHandlers hs r = map fst (filter (\<lambda>h. \<forall>f \<in> set (snd h). f r) hs)"
    by (simp add: callHandlers_def handler_accepts_def list_all_iff)
  show "callHandlers [(m, [MainDebateFilter]), (p, [PersuadorHelperFilter])] r =
        (if attributes r ''msg_type'' = Some (PyStr ''main debate'') then [m]
         else if attributes r ''msg_type'' = Some (PyStr ''persuador_helper'') then [p]
         else [])"
    by (simp add: callHandlers_def handler_accepts_def MainDebateFilter_iff
        PersuadorHelperFilter_iff)
  show "callHandlers [(m, [MainDebateFilter]), (p, [PersuadorHelperFilter])] r = []"
    if "attributes r ''msg_type'' = None"
    using that
    by (simp add: callHandlers_def handler_accepts_def MainDebateFilter_iff
        PersuadorHelperFilter_iff)
  show "\<not> handler_accepts h r"
    if "attributes r ''msg_type'' = Some (PyStr ''main debate'') \<and> PersuadorHelperFilter \<in> set (snd h)"
  proof
    assume "handler_accepts h r"
    with that have "PersuadorHelperFilter r"
      by (auto simp: handler_accepts_def list_all_iff)
    with that show False by (simp add: PersuadorHelperFilter_iff)
  qed
  show "\<not> handler_accepts h r"
    if "attributes r ''msg_type'' = Some (PyStr ''persuador_helper'') \<and> MainDebateFilter \<in> set (snd h)"
  proof
    assume "handler_accepts h r"
    with that have "MainDebateFilter r"
      by (auto simp: handler_accepts_def list_all_iff)
    with that show False by (simp add: MainDebateFilter_iff)
  qed
qed

theorem filters_route_by_msg_type_witness:
  "callHandlers [(''debate_file'', [MainDebateFilter]), (''helper_file'', [PersuadorHelperFilter])]
     \<lparr>attributes = [''msg_type'' \<mapsto> PyStr ''main debate'', ''speaker'' \<mapsto> PyStr ''pro'',
                     ''round'' \<mapsto> PyInt 3],
      getMessage = ''hello'', created_utc = ''2025-01-01T00:00:00+00:00''\<rparr> = [''debate_file'']
   \<and> callHandlers [(''debate_file'', [MainDebateFilter]), (''helper_file'', [PersuadorHelperFilter])]
     \<lparr>attributes = [''msg_type'' \<mapsto> PyStr ''system''],
      getMessage = ''hello'', created_utc = ''2025-01-01T00:00:00+00:00''\<rparr> = []
   \<and> callHandlers [(''debate_file'', [MainDebateFilter]), (''helper_file'', [PersuadorHelperFilter])]
     \<lparr>attributes = Map.empty,
      getMessage = ''hello'', created_utc = ''2025-01-01T00:00:00+00:00''\<rparr> = []"
proof -
  let ?hs = "[(''debate_file'', [MainDebateFilter]), (''helper_file'', [PersuadorHelperFilter])]"
  let ?r1 = "\<lparr>attributes = [''msg_type'' \<mapsto> PyStr ''main debate'', ''speaker'' \<mapsto> PyStr ''pro'',
                     ''round'' \<mapsto> PyInt 3],
      getMessage = ''hello'', created_utc = ''2025-01-01T00:00:00+00:00''\<rparr>"
  let ?r2 = "\<lparr>attributes = [''msg_type'' \<mapsto> PyStr ''system''],
      getMessage = ''hello'', created_utc = ''2025-01-01T00:00:00+00:00''\<rparr>"
  let ?r3 = "\<lparr>attributes = Map.empty,
      getMessage = ''hello'', created_utc = ''2025-01-01T00:00:00+00:00''\<rparr>"
  have a1: "attributes ?r1 ''msg_type'' = Some (PyStr ''main debate'')" by simp
  have a2: "attributes ?r2 ''msg_type'' = Some (PyStr ''system'')" by simp
  have a3: "attributes ?r3 ''msg_type'' = None" by simp
  from filters_route_by_msg_type [where r = ?r1 and m = "''debate_file''" and p = "''helper_file''"]
  have "callHandlers ?hs ?r1 = [''debate_file'']" unfolding a1 by simp
  moreover
  from filters_route_by_msg_type [where r = ?r2 and m = "''debate_file''" and p = "''helper_file''"]
  have "callHandlers ?hs ?r2 = []" unfolding a2 by simp
  moreover
  from filters_route_by_msg_type [where r = ?r3 and m = "''debate_file''" and p = "''helper_file''"]
  have "callHandlers ?hs ?r3 = []" using a3 by blast
  ultimately show ?thesis by simp
qed

end
